theory Spec2Isabelle
  imports Complex_Main "HOL-Library.AList" "HOL-Library.Char_ord" "HOL-Library.List_Lexorder"
begin

section \<open>Bias-aware grid search: the model of \<open>bias_aware_gridsearch.py\<close>\<close>

text \<open>
  The class \<open>BiasAwareGridSearchCV\<close> runs a cross-validated grid search that records
  a mean accuracy and a mean bias per hyperparameter configuration, and offers three
  policies that pick one configuration and retrain on the stored data frame.

  Conventions of the embedding:
  \<^item> the object is a record that is passed in and returned (\<open>fit\<close> is the only method
    that changes it);
  \<^item> every \<open>raise\<close> is a value \<open>Inl e\<close> of the result type \<open>error + 'a\<close>;
  \<^item> the estimator, \<open>accuracy_score\<close> and \<open>calculate_disparate_impact\<close> (module
    \<open>util\<close>) are parameters, collected in a record of functions, each of which may fail;
  \<^item> Python floats are read as real numbers: \<open>NaN\<close>, infinities and rounding are outside
    the model;
  \<^item> a pandas frame is positional: index labels are not modelled, so \<open>X_train\<close> and
    \<open>y_train\<close> are taken to be aligned row by row.
\<close>

subsection \<open>Errors\<close>

datatype error = ValueError | KeyError | IndexError | OtherError string

definition bind_result :: "error + 'a \<Rightarrow> ('a \<Rightarrow> error + 'b) \<Rightarrow> error + 'b" where
  "bind_result m f = (case m of Inl e \<Rightarrow> Inl e | Inr x \<Rightarrow> f x)"

subsection \<open>Data frames and series\<close>

text \<open>
  A frame has a number of rows and named columns, each a list of cell values; a series is
  a list of values. In a well-formed frame every column has \<open>nrows\<close> entries.
\<close>

record 'v frame =
  nrows :: nat
  cols :: "(string \<times> 'v list) list"

text \<open>\<open>series.iloc[idx]\<close>: positional selection, \<open>IndexError\<close> out of bounds.\<close>

definition iloc_series :: "'v list \<Rightarrow> nat list \<Rightarrow> error + 'v list" where
  "iloc_series vs idx =
     (if \<forall>i\<in>set idx. i < length vs then Inr (map (nth vs) idx) else Inl IndexError)"

text \<open>\<open>frame.iloc[idx]\<close>: the rows at the given positions.\<close>

definition iloc :: "'v frame \<Rightarrow> nat list \<Rightarrow> error + 'v frame" where
  "iloc f idx =
     (if \<forall>i\<in>set idx. i < nrows f
      then Inr \<lparr>nrows = length idx, cols = map (\<lambda>(c, vs). (c, map (nth vs) idx)) (cols f)\<rparr>
      else Inl IndexError)"

text \<open>\<open>frame[c]\<close>: the column named \<open>c\<close>, \<open>KeyError\<close> when there is none.\<close>

definition getitem :: "'v frame \<Rightarrow> string \<Rightarrow> error + 'v list" where
  "getitem f c = (case map_of (cols f) c of None \<Rightarrow> Inl KeyError | Some vs \<Rightarrow> Inr vs)"

text \<open>\<open>frame.drop(columns=cs)\<close>: \<open>KeyError\<close> when a label is not a column.\<close>

definition drop_columns :: "'v frame \<Rightarrow> string list \<Rightarrow> error + 'v frame" where
  "drop_columns f cs =
     (if \<forall>c\<in>set cs. c \<in> fst ` set (cols f)
      then Inr (f\<lparr>cols := filter (\<lambda>(c, vs). c \<notin> set cs) (cols f)\<rparr>)
      else Inl KeyError)"

text \<open>
  \<open>pd.DataFrame({k1: s1, k2: s2})\<close>: the dictionary display keeps one entry per key, the
  later value winning, and the frame takes its columns in the dictionary's order.
\<close>

definition DataFrame :: "string \<Rightarrow> 'v list \<Rightarrow> string \<Rightarrow> 'v list \<Rightarrow> 'v frame" where
  "DataFrame k1 s1 k2 s2 =
     \<lparr>nrows = length s2, cols = AList.update k2 s2 (AList.update k1 s1 [])\<rparr>"

text \<open>\<open>frame[c] = values\<close> with an array: \<open>ValueError\<close> on a length mismatch.\<close>

definition setitem :: "'v frame \<Rightarrow> string \<Rightarrow> 'v list \<Rightarrow> error + 'v frame" where
  "setitem f c vs =
     (if length vs = nrows f then Inr (f\<lparr>cols := AList.update c vs (cols f)\<rparr>)
      else Inl ValueError)"

subsection \<open>Library functions used by the search\<close>

text \<open>
  \<open>ParameterGrid(param_grid)\<close> for one dictionary of value lists: an empty value list is
  rejected with \<open>ValueError\<close>; the items are sorted by key and the configurations are
  the product of the value lists, the last key varying fastest. A dictionary is an
  association list with distinct keys.
\<close>

definition ParameterGrid :: "(string \<times> 'p list) list \<Rightarrow> error + (string \<times> 'p) list list" where
  "ParameterGrid grid =
     (if \<exists>kv\<in>set grid. snd kv = [] then Inl ValueError
      else let items = sort_key fst grid
           in Inr (map (zip (map fst items)) (product_lists (map snd items))))"

text \<open>\<open>KFold(n_splits=cv)\<close>: the constructor rejects fewer than two splits.\<close>

definition KFold :: "int \<Rightarrow> error + nat" where
  "KFold n_splits = (if n_splits \<le> 1 then Inl ValueError else Inr (nat n_splits))"

text \<open>
  \<open>kf.split(X)\<close> without shuffling: \<open>ValueError\<close> when there are more splits than
  samples; otherwise the first \<open>n_samples mod n_splits\<close> folds have one sample more than
  the others, the validation indices of the folds are consecutive blocks and the training
  indices are the remaining ones in increasing order.
\<close>

definition fold_sizes :: "nat \<Rightarrow> nat \<Rightarrow> nat list" where
  "fold_sizes n_splits n_samples =
     map (\<lambda>i. n_samples div n_splits + (if i < n_samples mod n_splits then 1 else 0))
       [0..<n_splits]"

fun test_ranges :: "nat \<Rightarrow> nat list \<Rightarrow> (nat \<times> nat) list" where
  "test_ranges current [] = []"
| "test_ranges current (fold_size # rest) =
     (current, current + fold_size) # test_ranges (current + fold_size) rest"

definition KFold_split :: "nat \<Rightarrow> nat \<Rightarrow> error + (nat list \<times> nat list) list" where
  "KFold_split n_splits n_samples =
     (if n_splits > n_samples then Inl ValueError
      else Inr (map (\<lambda>(start, stop). ([0..<start] @ [stop..<n_samples], [start..<stop]))
                  (test_ranges 0 (fold_sizes n_splits n_samples))))"

text \<open>\<open>np.mean\<close> of a list of numbers (never called on an empty list, see below).\<close>

definition np_mean :: "real list \<Rightarrow> real" where
  "np_mean xs = sum_list xs / real (length xs)"

text \<open>
  The builtins \<open>max(xs, key=f)\<close> and \<open>min(xs, key=f)\<close>: \<open>ValueError\<close> on an empty
  sequence; the running best element is replaced only by a strictly better one.
\<close>

fun max_loop :: "('a \<Rightarrow> 'b::linorder) \<Rightarrow> 'a \<Rightarrow> 'a list \<Rightarrow> 'a" where
  "max_loop key best [] = best"
| "max_loop key best (x # xs) = max_loop key (if key x > key best then x else best) xs"

definition py_max :: "('a \<Rightarrow> 'b::linorder) \<Rightarrow> 'a list \<Rightarrow> error + 'a" where
  "py_max key xs = (case xs of [] \<Rightarrow> Inl ValueError | x # rest \<Rightarrow> Inr (max_loop key x rest))"

fun min_loop :: "('a \<Rightarrow> 'b::linorder) \<Rightarrow> 'a \<Rightarrow> 'a list \<Rightarrow> 'a" where
  "min_loop key best [] = best"
| "min_loop key best (x # xs) = min_loop key (if key x < key best then x else best) xs"

definition py_min :: "('a \<Rightarrow> 'b::linorder) \<Rightarrow> 'a list \<Rightarrow> error + 'a" where
  "py_min key xs = (case xs of [] \<Rightarrow> Inl ValueError | x # rest \<Rightarrow> Inr (min_loop key x rest))"

text \<open>
  \<open>sorted(xs, key=f, reverse=True)\<close>: the list is reversed, sorted stably in ascending
  order and reversed again, so elements with equal keys keep their original order.
\<close>

definition sorted_reverse :: "('a \<Rightarrow> 'b::linorder) \<Rightarrow> 'a list \<Rightarrow> 'a list" where
  "sorted_reverse key xs = rev (sort_key key (rev xs))"

text \<open>The slice \<open>xs[:stop]\<close>; a negative \<open>stop\<close> counts from the end.\<close>

definition slice_to :: "'a list \<Rightarrow> int \<Rightarrow> 'a list" where
  "slice_to xs stop =
     (if stop < 0 then take (length xs - nat (- stop)) xs else take (nat stop) xs)"

subsection \<open>The estimator and the metric functions\<close>

record ('e, 'p, 'v) capabilities =
  clone :: "'e \<Rightarrow> error + 'e"
  set_params :: "'e \<Rightarrow> (string \<times> 'p) list \<Rightarrow> error + 'e"
  estimator_fit :: "'e \<Rightarrow> 'v frame \<Rightarrow> 'v list \<Rightarrow> error + 'e"
  predict :: "'e \<Rightarrow> 'v frame \<Rightarrow> error + 'v list"
  accuracy_score :: "'v list \<Rightarrow> 'v list \<Rightarrow> error + real"
  calculate_disparate_impact :: "'v frame \<Rightarrow> string \<Rightarrow> string \<Rightarrow> 'v \<Rightarrow> 'v \<Rightarrow> error + real"

subsection \<open>The search object\<close>

record 'p evaluation =
  params :: "(string \<times> 'p) list"
  accuracy :: real
  bias :: real

record ('e, 'p, 'v) BiasAwareGridSearchCV =
  estimator :: 'e
  param_grid :: "(string \<times> 'p list) list"
  df :: "'v frame"
  outcome_column :: string
  protected_attribute :: string
  privileged_value :: 'v
  unprivileged_value :: 'v
  cv :: int
  results :: "'p evaluation list"  \<comment> \<open>the attribute \<open>results_\<close> of the source\<close>

text \<open>\<open>__init__\<close>: stores its arguments and starts with an empty result list.\<close>

definition init ::
  "'e \<Rightarrow> (string \<times> 'p list) list \<Rightarrow> 'v frame \<Rightarrow> string \<Rightarrow> string \<Rightarrow> 'v \<Rightarrow> 'v \<Rightarrow> int
   \<Rightarrow> ('e, 'p, 'v) BiasAwareGridSearchCV" where
  "init est grid frame outcome protected privileged unprivileged folds =
     \<lparr>estimator = est, param_grid = grid, df = frame, outcome_column = outcome,
      protected_attribute = protected, privileged_value = privileged,
      unprivileged_value = unprivileged, cv = folds, results = []\<rparr>"

subsection \<open>\<open>fit\<close>\<close>

text \<open>The body of the inner loop: one fold gives one accuracy and one bias.\<close>

definition evaluate_fold ::
  "('e, 'p, 'v) capabilities \<Rightarrow> ('e, 'p, 'v) BiasAwareGridSearchCV \<Rightarrow> 'v frame \<Rightarrow> 'v list
   \<Rightarrow> (string \<times> 'p) list \<Rightarrow> nat list \<times> nat list \<Rightarrow> error + real \<times> real" where
  "evaluate_fold caps self X_train y_train ps indices =
     (case indices of (train_index, val_index) \<Rightarrow>
      bind_result (iloc X_train train_index) (\<lambda>X_train_fold.
      bind_result (iloc X_train val_index) (\<lambda>X_val_fold.
      bind_result (iloc_series y_train train_index) (\<lambda>y_train_fold.
      bind_result (iloc_series y_train val_index) (\<lambda>y_val_fold.
      bind_result (clone caps (estimator self)) (\<lambda>model.
      bind_result (set_params caps model ps) (\<lambda>model.
      bind_result (estimator_fit caps model X_train_fold y_train_fold) (\<lambda>model.
      bind_result (predict caps model X_val_fold) (\<lambda>preds.
      bind_result (accuracy_score caps y_val_fold preds) (\<lambda>acc.
      bind_result (getitem X_val_fold (protected_attribute self)) (\<lambda>protected_attr_val.
      bind_result (setitem (DataFrame (outcome_column self) y_val_fold
                              (protected_attribute self) protected_attr_val)
                     (outcome_column self @ ''_pred'') preds) (\<lambda>temp_df.
      bind_result (calculate_disparate_impact caps temp_df (outcome_column self @ ''_pred'')
                     (protected_attribute self) (privileged_value self)
                     (unprivileged_value self)) (\<lambda>b.
      Inr (acc, b))))))))))))))"

text \<open>The inner loop over the folds, with the two accumulator lists.\<close>

fun fold_loop ::
  "('e, 'p, 'v) capabilities \<Rightarrow> ('e, 'p, 'v) BiasAwareGridSearchCV \<Rightarrow> 'v frame \<Rightarrow> 'v list
   \<Rightarrow> (string \<times> 'p) list \<Rightarrow> real list \<Rightarrow> real list \<Rightarrow> (nat list \<times> nat list) list
   \<Rightarrow> error + real list \<times> real list" where
  "fold_loop caps self X_train y_train ps accuracies biases [] = Inr (accuracies, biases)"
| "fold_loop caps self X_train y_train ps accuracies biases (indices # rest) =
     (case evaluate_fold caps self X_train y_train ps indices of
        Inl e \<Rightarrow> Inl e
      | Inr (acc, b) \<Rightarrow>
          fold_loop caps self X_train y_train ps (accuracies @ [acc]) (biases @ [b]) rest)"

text \<open>The body of the outer loop up to the record that is appended.\<close>

definition evaluate_params ::
  "('e, 'p, 'v) capabilities \<Rightarrow> ('e, 'p, 'v) BiasAwareGridSearchCV \<Rightarrow> nat \<Rightarrow> 'v frame
   \<Rightarrow> 'v list \<Rightarrow> (string \<times> 'p) list \<Rightarrow> error + 'p evaluation" where
  "evaluate_params caps self kf X_train y_train ps =
     bind_result (KFold_split kf (nrows X_train)) (\<lambda>folds.
     bind_result (fold_loop caps self X_train y_train ps [] [] folds) (\<lambda>(accuracies, biases).
     Inr \<lparr>params = ps, accuracy = np_mean accuracies, bias = np_mean biases\<rparr>))"

text \<open>
  The outer loop. An exception leaves the loop at once; the object keeps what was appended
  before.
\<close>

fun fit_loop ::
  "('e, 'p, 'v) capabilities \<Rightarrow> ('e, 'p, 'v) BiasAwareGridSearchCV \<Rightarrow> nat \<Rightarrow> 'v frame
   \<Rightarrow> 'v list \<Rightarrow> (string \<times> 'p) list list
   \<Rightarrow> ('e, 'p, 'v) BiasAwareGridSearchCV \<times> (error + unit)" where
  "fit_loop caps self kf X_train y_train [] = (self, Inr ())"
| "fit_loop caps self kf X_train y_train (ps # rest) =
     (case evaluate_params caps self kf X_train y_train ps of
        Inl e \<Rightarrow> (self, Inl e)
      | Inr r \<Rightarrow>
          fit_loop caps (self\<lparr>results := results self @ [r]\<rparr>) kf X_train y_train rest)"

definition fit ::
  "('e, 'p, 'v) capabilities \<Rightarrow> ('e, 'p, 'v) BiasAwareGridSearchCV \<Rightarrow> 'v frame \<Rightarrow> 'v list
   \<Rightarrow> ('e, 'p, 'v) BiasAwareGridSearchCV \<times> (error + unit)" where
  "fit caps self X_train y_train =
     (case KFold (cv self) of
        Inl e \<Rightarrow> (self, Inl e)
      | Inr kf \<Rightarrow>
          (case ParameterGrid (param_grid self) of
             Inl e \<Rightarrow> (self, Inl e)
           | Inr grid \<Rightarrow> fit_loop caps self kf X_train y_train grid))"

text \<open>A caller that runs \<open>fit\<close> several times on one object, stopping at an exception.\<close>

fun fit_calls ::
  "('e, 'p, 'v) capabilities \<Rightarrow> ('e, 'p, 'v) BiasAwareGridSearchCV \<Rightarrow> ('v frame \<times> 'v list) list
   \<Rightarrow> ('e, 'p, 'v) BiasAwareGridSearchCV \<times> (error + unit)" where
  "fit_calls caps self [] = (self, Inr ())"
| "fit_calls caps self ((X_train, y_train) # rest) =
     (case fit caps self X_train y_train of
        (self', Inl e) \<Rightarrow> (self', Inl e)
      | (self', Inr u) \<Rightarrow> fit_calls caps self' rest)"

subsection \<open>Selection and retraining\<close>

definition retrain_model ::
  "('e, 'p, 'v) capabilities \<Rightarrow> ('e, 'p, 'v) BiasAwareGridSearchCV \<Rightarrow> (string \<times> 'p) list
   \<Rightarrow> error + 'e" where
  "retrain_model caps self ps =
     bind_result (clone caps (estimator self)) (\<lambda>model.
     bind_result (set_params caps model ps) (\<lambda>model.
     bind_result (drop_columns (df self) [outcome_column self]) (\<lambda>features.
     bind_result (getitem (df self) (outcome_column self)) (\<lambda>target.
     estimator_fit caps model features target))))"

text \<open>The local \<open>best_params\<close> of the three policies.\<close>

definition highest_accuracy_best_params ::
  "('e, 'p, 'v) BiasAwareGridSearchCV \<Rightarrow> error + (string \<times> 'p) list" where
  "highest_accuracy_best_params self =
     bind_result (py_max accuracy (results self)) (\<lambda>r. Inr (params r))"

definition least_biased_best_params ::
  "('e, 'p, 'v) BiasAwareGridSearchCV \<Rightarrow> error + (string \<times> 'p) list" where
  "least_biased_best_params self =
     bind_result (py_min bias (results self)) (\<lambda>r. Inr (params r))"

definition top_accurate_models ::
  "('e, 'p, 'v) BiasAwareGridSearchCV \<Rightarrow> int \<Rightarrow> 'p evaluation list" where
  "top_accurate_models self threshold =
     slice_to (sorted_reverse accuracy (results self)) threshold"

definition balanced_best_params ::
  "('e, 'p, 'v) BiasAwareGridSearchCV \<Rightarrow> int \<Rightarrow> error + (string \<times> 'p) list" where
  "balanced_best_params self threshold =
     bind_result (py_min bias (top_accurate_models self threshold)) (\<lambda>r. Inr (params r))"

definition select_highest_accuracy_model ::
  "('e, 'p, 'v) capabilities \<Rightarrow> ('e, 'p, 'v) BiasAwareGridSearchCV \<Rightarrow> error + 'e" where
  "select_highest_accuracy_model caps self =
     bind_result (highest_accuracy_best_params self) (retrain_model caps self)"

definition select_least_biased_model ::
  "('e, 'p, 'v) capabilities \<Rightarrow> ('e, 'p, 'v) BiasAwareGridSearchCV \<Rightarrow> error + 'e" where
  "select_least_biased_model caps self =
     bind_result (least_biased_best_params self) (retrain_model caps self)"

definition select_balanced_model ::
  "('e, 'p, 'v) capabilities \<Rightarrow> ('e, 'p, 'v) BiasAwareGridSearchCV \<Rightarrow> int \<Rightarrow> error + 'e" where
  "select_balanced_model caps self threshold =
     bind_result (balanced_best_params self threshold) (retrain_model caps self)"

text \<open>\<open>find_optimum_model\<close>: the body is \<open>pass\<close>, so the call returns \<open>None\<close>.\<close>

definition find_optimum_model ::
  "('e, 'p, 'v) BiasAwareGridSearchCV \<Rightarrow> 'm \<Rightarrow> error + 'e option" where
  "find_optimum_model self margin = Inr None"

text \<open>
  What it means for a model \<open>m\<close> to be the result of retraining with the configuration
  \<open>ps\<close> on the stored frame: a clone of the base estimator, configured with \<open>ps\<close>, was
  fitted on features that have all rows of the stored frame and all its columns but the
  outcome column, with the outcome column as the target.
\<close>

abbreviation fitted_on_full_frame ::
  "('e, 'p, 'v) capabilities \<Rightarrow> ('e, 'p, 'v) BiasAwareGridSearchCV \<Rightarrow> (string \<times> 'p) list
   \<Rightarrow> 'e \<Rightarrow> bool" where
  "fitted_on_full_frame caps self ps m \<equiv>
     (\<exists>model0 model1 features target.
        clone caps (estimator self) = Inr model0
      \<and> set_params caps model0 ps = Inr model1
      \<and> estimator_fit caps model1 features target = Inr m
      \<and> nrows features = nrows (df self)
      \<and> cols features = filter (\<lambda>(c, vs). c \<noteq> outcome_column self) (cols (df self))
      \<and> outcome_column self \<notin> fst ` set (cols features)
      \<and> map_of (cols (df self)) (outcome_column self) = Some target)"

text \<open>
  What it means for one fold to have been measured with the configuration \<open>ps\<close>, stated
  over the estimator and the metric functions: the two slices of \<open>X_train\<close> and
  \<open>y_train\<close> were taken, a clone of the base estimator was configured with \<open>ps\<close> and
  fitted on the training slice, \<open>acc\<close> is what \<open>accuracy_score\<close> returned for the
  validation labels and the predictions on the validation slice, and \<open>b\<close> is what
  \<open>calculate_disparate_impact\<close> returned for the table of validation labels, protected
  attribute and predictions.
\<close>

abbreviation fold_measured ::
  "('e, 'p, 'v) capabilities \<Rightarrow> ('e, 'p, 'v) BiasAwareGridSearchCV \<Rightarrow> 'v frame \<Rightarrow> 'v list
   \<Rightarrow> (string \<times> 'p) list \<Rightarrow> nat list \<times> nat list \<Rightarrow> real \<Rightarrow> real \<Rightarrow> bool" where
  "fold_measured caps self X_train y_train ps indices acc b \<equiv>
     (\<exists>X_train_fold. iloc X_train (fst indices) = Inr X_train_fold \<and>
     (\<exists>X_val_fold. iloc X_train (snd indices) = Inr X_val_fold \<and>
     (\<exists>y_train_fold. iloc_series y_train (fst indices) = Inr y_train_fold \<and>
     (\<exists>y_val_fold. iloc_series y_train (snd indices) = Inr y_val_fold \<and>
     (\<exists>model0. clone caps (estimator self) = Inr model0 \<and>
     (\<exists>model1. set_params caps model0 ps = Inr model1 \<and>
     (\<exists>model2. estimator_fit caps model1 X_train_fold y_train_fold = Inr model2 \<and>
     (\<exists>preds. predict caps model2 X_val_fold = Inr preds \<and>
       accuracy_score caps y_val_fold preds = Inr acc \<and>
     (\<exists>protected_attr_val.
        getitem X_val_fold (protected_attribute self) = Inr protected_attr_val \<and>
     (\<exists>temp_df.
        setitem (DataFrame (outcome_column self) y_val_fold
                   (protected_attribute self) protected_attr_val)
          (outcome_column self @ ''_pred'') preds = Inr temp_df \<and>
        calculate_disparate_impact caps temp_df (outcome_column self @ ''_pred'')
          (protected_attribute self) (privileged_value self) (unprivileged_value self)
          = Inr b))))))))))"

text \<open>
  What it means for a fold to raise \<open>e\<close>: one of the calls of the fold body, in the
  order of the source, fails with \<open>e\<close> after all calls before it have returned.
\<close>

abbreviation fold_raises ::
  "('e, 'p, 'v) capabilities \<Rightarrow> ('e, 'p, 'v) BiasAwareGridSearchCV \<Rightarrow> 'v frame \<Rightarrow> 'v list
   \<Rightarrow> (string \<times> 'p) list \<Rightarrow> nat list \<times> nat list \<Rightarrow> error \<Rightarrow> bool" where
  "fold_raises caps self X_train y_train ps indices e \<equiv>
     (iloc X_train (fst indices) = Inl e \<or>
     (\<exists>X_train_fold. iloc X_train (fst indices) = Inr X_train_fold \<and>
     (iloc X_train (snd indices) = Inl e \<or>
     (\<exists>X_val_fold. iloc X_train (snd indices) = Inr X_val_fold \<and>
     (iloc_series y_train (fst indices) = Inl e \<or>
     (\<exists>y_train_fold. iloc_series y_train (fst indices) = Inr y_train_fold \<and>
     (iloc_series y_train (snd indices) = Inl e \<or>
     (\<exists>y_val_fold. iloc_series y_train (snd indices) = Inr y_val_fold \<and>
     (clone caps (estimator self) = Inl e \<or>
     (\<exists>model0. clone caps (estimator self) = Inr model0 \<and>
     (set_params caps model0 ps = Inl e \<or>
     (\<exists>model1. set_params caps model0 ps = Inr model1 \<and>
     (estimator_fit caps model1 X_train_fold y_train_fold = Inl e \<or>
     (\<exists>model2. estimator_fit caps model1 X_train_fold y_train_fold = Inr model2 \<and>
     (predict caps model2 X_val_fold = Inl e \<or>
     (\<exists>preds. predict caps model2 X_val_fold = Inr preds \<and>
     (accuracy_score caps y_val_fold preds = Inl e \<or>
     (\<exists>acc. accuracy_score caps y_val_fold preds = Inr acc \<and>
     (getitem X_val_fold (protected_attribute self) = Inl e \<or>
     (\<exists>protected_attr_val.
        getitem X_val_fold (protected_attribute self) = Inr protected_attr_val \<and>
     (setitem (DataFrame (outcome_column self) y_val_fold
                 (protected_attribute self) protected_attr_val)
        (outcome_column self @ ''_pred'') preds = Inl e \<or>
     (\<exists>temp_df.
        setitem (DataFrame (outcome_column self) y_val_fold
                   (protected_attribute self) protected_attr_val)
          (outcome_column self @ ''_pred'') preds = Inr temp_df \<and>
        calculate_disparate_impact caps temp_df (outcome_column self @ ''_pred'')
          (protected_attribute self) (privileged_value self) (unprivileged_value self)
          = Inl e))))))))))))))))))))))"

subsection \<open>A small instance\<close>

text \<open>
  A stand-in estimator for running the search on concrete data: its state is the list of
  hyperparameters and, once fitted, the number of rows it was fitted on. It rejects a
  hyperparameter value that is not positive, and predicts the value of \<open>C\<close> on every row.
  The accuracy is the fraction of equal labels; the bias is a tenth of the sum of the
  predicted column.
\<close>

type_synonym toy_estimator = "(string \<times> int) list \<times> nat option"

definition toy_caps :: "(toy_estimator, int, int) capabilities" where
  "toy_caps =
     \<lparr>clone = (\<lambda>e. Inr (fst e, None)),
      set_params = (\<lambda>e ps.
         if \<exists>kv\<in>set ps. snd kv \<le> 0 then Inl ValueError else Inr (ps, snd e)),
      estimator_fit = (\<lambda>e X y. Inr (fst e, Some (nrows X))),
      predict = (\<lambda>e X.
         Inr (replicate (nrows X) (case map_of (fst e) ''C'' of None \<Rightarrow> 0 | Some c \<Rightarrow> c))),
      accuracy_score = (\<lambda>y_true y_pred.
         if length y_true \<noteq> length y_pred then Inl ValueError
         else Inr (real (length (filter (\<lambda>(a, b). a = b) (zip y_true y_pred)))
                     / real (length y_true))),
      calculate_disparate_impact = (\<lambda>f predicted protected privileged unprivileged.
         case getitem f predicted of
           Inl e \<Rightarrow> Inl e
         | Inr ps \<Rightarrow> Inr (real_of_int (sum_list ps) / 10))\<rparr>"

text \<open>The full data set has three rows; the training split holds the first two.\<close>

definition toy_df :: "int frame" where
  "toy_df = \<lparr>nrows = 3, cols = [(''x'', [0, 1, 2]), (''sex'', [0, 1, 1]), (''y'', [1, 2, 1])]\<rparr>"

definition toy_X :: "int frame" where
  "toy_X = \<lparr>nrows = 2, cols = [(''x'', [0, 1]), (''sex'', [0, 1])]\<rparr>"

definition toy_y :: "int list" where
  "toy_y = [1, 2]"

text \<open>A training split of three rows, for folds of different sizes.\<close>

definition toy_X3 :: "int frame" where
  "toy_X3 = \<lparr>nrows = 3, cols = [(''x'', [0, 1, 2]), (''sex'', [0, 1, 1])]\<rparr>"

definition toy_y3 :: "int list" where
  "toy_y3 = [1, 2, 1]"

definition toy_search ::
  "(string \<times> int list) list \<Rightarrow> (toy_estimator, int, int) BiasAwareGridSearchCV" where
  "toy_search grid = init ([], None) grid toy_df ''y'' ''sex'' 1 0 2"

definition toy_grid :: "(string \<times> int list) list" where
  "toy_grid = [(''kernel'', [1, 2]), (''C'', [1, 2, 3])]"

definition toy_grid_failing :: "(string \<times> int list) list" where
  "toy_grid_failing = [(''C'', [1, 0, 2])]"

definition toy_scored ::
  "int evaluation list \<Rightarrow> (toy_estimator, int, int) BiasAwareGridSearchCV" where
  "toy_scored rs = (toy_search [(''C'', [1, 2, 3])])\<lparr>results := rs\<rparr>"

definition toy_record :: "int \<Rightarrow> real \<Rightarrow> real \<Rightarrow> int evaluation" where
  "toy_record c a b = \<lparr>params = [(''C'', c)], accuracy = a, bias = b\<rparr>"

text \<open>
  Two result lists: in the first the two best accuracies are equal and the biases differ;
  in the second the two biases are equal.
\<close>

definition toy_results_a :: "int evaluation list" where
  "toy_results_a =
     [toy_record 1 (1 / 2) (1 / 10), toy_record 2 (9 / 10) (1 / 5), toy_record 3 (9 / 10) (1 / 20)]"

definition toy_results_b :: "int evaluation list" where
  "toy_results_b = [toy_record 1 (1 / 2) (1 / 10), toy_record 2 (9 / 10) (1 / 10)]"


section \<open>Auxiliary facts\<close>

subsection \<open>Results and binding\<close>

lemma bind_result_Inr_iff:
  "bind_result m f = Inr y \<longleftrightarrow> (\<exists>x. m = Inr x \<and> f x = Inr y)"
  by (cases m) (simp_all add: bind_result_def)

lemma bind_result_simps:
  "bind_result (Inl e) f = Inl e" "bind_result (Inr x) f = f x"
  by (simp_all add: bind_result_def)

lemma bind_result_Inl_iff:
  "bind_result m f = Inl e \<longleftrightarrow> m = Inl e \<or> (\<exists>x. m = Inr x \<and> f x = Inl e)"
  by (cases m) (simp_all add: bind_result_def)

subsection \<open>\<open>max\<close>, \<open>min\<close> and \<open>sorted\<close>\<close>

lemma max_loop_snoc:
  "max_loop key b (xs @ [x]) = (let m = max_loop key b xs in if key x > key m then x else m)"
  by (induction xs arbitrary: b) (simp_all add: Let_def)

lemma min_loop_snoc:
  "min_loop key b (xs @ [x]) = (let m = min_loop key b xs in if key x < key m then x else m)"
  by (induction xs arbitrary: b) (simp_all add: Let_def)

lemma max_loop_split:
  "\<exists>pre post. b # xs = pre @ max_loop key b xs # post
      \<and> (\<forall>y\<in>set pre. key y < key (max_loop key b xs))
      \<and> (\<forall>y\<in>set post. key y \<le> key (max_loop key b xs))"
proof (induction xs rule: rev_induct)
  case Nil
  have "[b] = [] @ b # []" by simp
  then show ?case by (metis empty_iff empty_set max_loop.simps(1))
next
  case (snoc x xs)
  let ?m = "max_loop key b xs"
  from snoc obtain pre post where sp: "b # xs = pre @ ?m # post"
    and lt: "\<forall>y\<in>set pre. key y < key ?m" and le: "\<forall>y\<in>set post. key y \<le> key ?m"
    by blast
  show ?case
  proof (cases "key x > key ?m")
    case True
    have all: "\<forall>y\<in>set (b # xs). key y < key x"
    proof
      fix y assume "y \<in> set (b # xs)"
      then have "y \<in> set pre \<or> y = ?m \<or> y \<in> set post" unfolding sp by auto
      then have "key y \<le> key ?m" using lt le by auto
      then show "key y < key x" using True by simp
    qed
    have "b # xs @ [x] = (b # xs) @ max_loop key b (xs @ [x]) # []"
      using True by (simp add: max_loop_snoc)
    moreover have "\<forall>y\<in>set (b # xs). key y < key (max_loop key b (xs @ [x]))"
      using True all by (simp add: max_loop_snoc)
    ultimately show ?thesis by (metis empty_iff empty_set)
  next
    case False
    have m: "max_loop key b (xs @ [x]) = ?m" using False by (simp add: max_loop_snoc)
    have "b # xs @ [x] = pre @ ?m # (post @ [x])" using sp by simp
    moreover have "\<forall>y\<in>set (post @ [x]). key y \<le> key ?m" using le False by auto
    ultimately show ?thesis unfolding m using lt by blast
  qed
qed

lemma min_loop_split:
  "\<exists>pre post. b # xs = pre @ min_loop key b xs # post
      \<and> (\<forall>y\<in>set pre. key (min_loop key b xs) < key y)
      \<and> (\<forall>y\<in>set post. key (min_loop key b xs) \<le> key y)"
proof (induction xs rule: rev_induct)
  case Nil
  have "[b] = [] @ b # []" by simp
  then show ?case by (metis empty_iff empty_set min_loop.simps(1))
next
  case (snoc x xs)
  let ?m = "min_loop key b xs"
  from snoc obtain pre post where sp: "b # xs = pre @ ?m # post"
    and lt: "\<forall>y\<in>set pre. key ?m < key y" and le: "\<forall>y\<in>set post. key ?m \<le> key y"
    by blast
  show ?case
  proof (cases "key x < key ?m")
    case True
    have all: "\<forall>y\<in>set (b # xs). key x < key y"
    proof
      fix y assume "y \<in> set (b # xs)"
      then have "y \<in> set pre \<or> y = ?m \<or> y \<in> set post" unfolding sp by auto
      then have "key ?m \<le> key y" using lt le by auto
      then show "key x < key y" using True by simp
    qed
    have "b # xs @ [x] = (b # xs) @ min_loop key b (xs @ [x]) # []"
      using True by (simp add: min_loop_snoc)
    moreover have "\<forall>y\<in>set (b # xs). key (min_loop key b (xs @ [x])) < key y"
      using True all by (simp add: min_loop_snoc)
    ultimately show ?thesis by (metis empty_iff empty_set)
  next
    case False
    have m: "min_loop key b (xs @ [x]) = ?m" using False by (simp add: min_loop_snoc)
    have "b # xs @ [x] = pre @ ?m # (post @ [x])" using sp by simp
    moreover have "\<forall>y\<in>set (post @ [x]). key ?m \<le> key y" using le False by auto
    ultimately show ?thesis unfolding m using lt by blast
  qed
qed

lemma split_first_index:
  assumes "ys = pre @ m # post"
  shows "length pre < length ys \<and> ys ! length pre = m \<and> (\<forall>j<length pre. ys ! j \<in> set pre)
     \<and> (\<forall>j<length ys. ys ! j \<in> set pre \<or> ys ! j = m \<or> ys ! j \<in> set post)"
proof -
  have "\<forall>j<length ys. ys ! j \<in> set ys" by simp
  then have "\<forall>j<length ys. ys ! j \<in> set pre \<or> ys ! j = m \<or> ys ! j \<in> set post"
    unfolding assms by auto
  then show ?thesis unfolding assms by (simp add: nth_append)
qed

lemma last_insort_key:
  "sorted (map key zs) \<Longrightarrow> zs \<noteq> [] \<Longrightarrow>
   last (insort_key key y zs) = (if key y > key (last zs) then y else last zs)"
proof (induction zs)
  case Nil
  then show ?case by simp
next
  case (Cons z zs)
  show ?case
  proof (cases "zs = []")
    case True
    then show ?thesis by auto
  next
    case False
    have le: "key z \<le> key (last zs)" using Cons.prems False by simp
    have IH: "last (insort_key key y zs) = (if key y > key (last zs) then y else last zs)"
      using Cons False by simp
    have ne: "insort_key key y zs \<noteq> []" by (cases zs) auto
    show ?thesis using False IH ne le by auto
  qed
qed

lemma last_foldr_insort_key:
  "sorted (map key zs) \<Longrightarrow> zs \<noteq> [] \<Longrightarrow>
   sorted (map key (foldr (insort_key key) ys zs)) \<and> foldr (insort_key key) ys zs \<noteq> [] \<and>
   last (foldr (insort_key key) ys zs)
     = foldr (\<lambda>y m. if key y > key m then y else m) ys (last zs)"
proof (induction ys)
  case Nil
  then show ?case by simp
next
  case (Cons y ys)
  then have IH: "sorted (map key (foldr (insort_key key) ys zs))"
    "foldr (insort_key key) ys zs \<noteq> []"
    "last (foldr (insort_key key) ys zs)
       = foldr (\<lambda>y m. if key y > key m then y else m) ys (last zs)"
    by simp_all
  have ne: "insort_key key y (foldr (insort_key key) ys zs) \<noteq> []"
    by (cases "foldr (insort_key key) ys zs") auto
  show ?case
    using IH ne by (simp add: sorted_insort_key last_insort_key)
qed

lemma max_loop_foldr:
  "max_loop key b xs = foldr (\<lambda>y m. if key y > key m then y else m) (rev xs) b"
  by (induction xs arbitrary: b) simp_all

lemma hd_sorted_reverse:
  "hd (sorted_reverse key (b # xs)) = max_loop key b xs"
proof -
  have "sort_key key (rev (b # xs)) = foldr (insort_key key) (rev xs) [b]"
    by (simp add: sort_key_def)
  moreover have "last (foldr (insort_key key) (rev xs) [b]) = max_loop key b xs"
    "foldr (insort_key key) (rev xs) [b] \<noteq> []"
    using last_foldr_insort_key[of key "[b]" "rev xs"] by (simp_all add: max_loop_foldr)
  ultimately show ?thesis
    by (simp add: sorted_reverse_def hd_rev)
qed

lemma length_sorted_reverse: "length (sorted_reverse key xs) = length xs"
  by (simp add: sorted_reverse_def)

lemma set_sorted_reverse: "set (sorted_reverse key xs) = set xs"
  by (simp add: sorted_reverse_def)

lemma py_max_first:
  assumes "xs \<noteq> []"
  shows "\<exists>i<length xs. py_max key xs = Inr (xs ! i)
           \<and> (\<forall>j<length xs. key (xs ! j) \<le> key (xs ! i))
           \<and> (\<forall>j<i. key (xs ! j) < key (xs ! i))"
proof -
  from assms obtain b rest where xs: "xs = b # rest" by (cases xs) auto
  let ?m = "max_loop key b rest"
  from max_loop_split[of b rest key] obtain pre post where
    sp: "xs = pre @ ?m # post" and lt: "\<forall>y\<in>set pre. key y < key ?m"
    and le: "\<forall>y\<in>set post. key y \<le> key ?m"
    unfolding xs by blast
  note ix = split_first_index[OF sp]
  have "py_max key xs = Inr (xs ! length pre)" using ix by (simp add: py_max_def xs)
  moreover have "\<forall>j<length xs. key (xs ! j) \<le> key (xs ! length pre)"
    using ix lt le by (metis order.refl order.strict_implies_order)
  moreover have "\<forall>j<length pre. key (xs ! j) < key (xs ! length pre)"
    using ix lt by metis
  ultimately show ?thesis using ix by blast
qed

lemma py_min_first:
  assumes "xs \<noteq> []"
  shows "\<exists>i<length xs. py_min key xs = Inr (xs ! i)
           \<and> (\<forall>j<length xs. key (xs ! i) \<le> key (xs ! j))
           \<and> (\<forall>j<i. key (xs ! i) < key (xs ! j))"
proof -
  from assms obtain b rest where xs: "xs = b # rest" by (cases xs) auto
  let ?m = "min_loop key b rest"
  from min_loop_split[of b rest key] obtain pre post where
    sp: "xs = pre @ ?m # post" and lt: "\<forall>y\<in>set pre. key ?m < key y"
    and le: "\<forall>y\<in>set post. key ?m \<le> key y"
    unfolding xs by blast
  note ix = split_first_index[OF sp]
  have "py_min key xs = Inr (xs ! length pre)" using ix by (simp add: py_min_def xs)
  moreover have "\<forall>j<length xs. key (xs ! length pre) \<le> key (xs ! j)"
    using ix lt le by (metis order.refl order.strict_implies_order)
  moreover have "\<forall>j<length pre. key (xs ! length pre) < key (xs ! j)"
    using ix lt by metis
  ultimately show ?thesis using ix by blast
qed

lemma py_min_minimum:
  assumes "xs \<noteq> []"
  shows "\<exists>m\<in>set xs. py_min key xs = Inr m \<and> (\<forall>x\<in>set xs. key m \<le> key x)"
proof -
  from py_min_first[OF assms, of key] obtain i where
    i: "i < length xs" "py_min key xs = Inr (xs ! i)"
       "\<forall>j<length xs. key (xs ! i) \<le> key (xs ! j)"
    by blast
  have "\<forall>x\<in>set xs. key (xs ! i) \<le> key x" using i(3) by (metis in_set_conv_nth)
  then show ?thesis using i(1,2) by (metis nth_mem)
qed

lemma slice_to_all: "int (length xs) \<le> stop \<Longrightarrow> slice_to xs stop = xs"
  by (simp add: slice_to_def)

lemma top_accurate_models_one:
  assumes "results self = b # rest"
  shows "top_accurate_models self 1 = [max_loop accuracy b rest]"
proof -
  have "length (sorted_reverse accuracy (b # rest)) = Suc (length rest)"
    by (simp add: length_sorted_reverse)
  then obtain z zs where z: "sorted_reverse accuracy (b # rest) = z # zs"
    by (cases "sorted_reverse accuracy (b # rest)") auto
  then have "z = max_loop accuracy b rest"
    using hd_sorted_reverse[of accuracy b rest] by simp
  then show ?thesis using z by (simp add: top_accurate_models_def slice_to_def assms)
qed

subsection \<open>The loops of \<open>fit\<close>\<close>

lemma evaluate_fold_results_update:
  "evaluate_fold caps (self\<lparr>results := rs\<rparr>) X y ps indices = evaluate_fold caps self X y ps indices"
  by (simp add: evaluate_fold_def)

lemma fold_loop_results_update:
  "fold_loop caps (self\<lparr>results := rs\<rparr>) X y ps accs bs folds = fold_loop caps self X y ps accs bs folds"
  by (induction folds arbitrary: accs bs)
     (simp_all add: evaluate_fold_results_update split: sum.splits prod.splits)

lemma evaluate_params_results_update:
  "evaluate_params caps (self\<lparr>results := rs\<rparr>) kf X y = evaluate_params caps self kf X y"
  by (rule ext) (simp add: evaluate_params_def fold_loop_results_update)

lemma fold_loop_Inr:
  "fold_loop caps self X y ps accs bs folds = Inr (accs', bs') \<Longrightarrow>
   \<exists>ms. map (evaluate_fold caps self X y ps) folds = map Inr ms
        \<and> accs' = accs @ map fst ms \<and> bs' = bs @ map snd ms"
proof (induction folds arbitrary: accs bs)
  case Nil
  then show ?case by simp
next
  case (Cons indices folds)
  from Cons.prems obtain acc b where
    ev: "evaluate_fold caps self X y ps indices = Inr (acc, b)"
    and rest: "fold_loop caps self X y ps (accs @ [acc]) (bs @ [b]) folds = Inr (accs', bs')"
    by (auto split: sum.splits)
  from Cons.IH[OF rest] obtain ms where
    ms: "map (evaluate_fold caps self X y ps) folds = map Inr ms"
      "accs' = (accs @ [acc]) @ map fst ms" "bs' = (bs @ [b]) @ map snd ms"
    by blast
  have "map (evaluate_fold caps self X y ps) (indices # folds) = map Inr ((acc, b) # ms)"
    using ev ms(1) by simp
  moreover have "accs' = accs @ map fst ((acc, b) # ms)" "bs' = bs @ map snd ((acc, b) # ms)"
    using ms(2,3) by simp_all
  ultimately show ?case by blast
qed

lemma length_test_ranges: "length (test_ranges current sizes) = length sizes"
  by (induction sizes arbitrary: current) simp_all

lemma length_KFold_split:
  "KFold_split n_splits n_samples = Inr folds \<Longrightarrow> length folds = n_splits"
  by (auto simp: KFold_split_def length_test_ranges fold_sizes_def split: if_splits)

lemma KFold_Inr: "KFold n = Inr kf \<Longrightarrow> 2 \<le> n \<and> kf = nat n"
  by (auto simp: KFold_def split: if_splits)

lemma evaluate_params_Inr:
  assumes "evaluate_params caps self kf X y ps = Inr r"
  shows "params r = ps \<and>
    (\<exists>folds ms. KFold_split kf (nrows X) = Inr folds \<and> length folds = kf
        \<and> map (evaluate_fold caps self X y ps) folds = map Inr ms \<and> length ms = kf
        \<and> accuracy r = sum_list (map fst ms) / real kf
        \<and> bias r = sum_list (map snd ms) / real kf)"
proof -
  from assms obtain folds accs bs where
    sp: "KFold_split kf (nrows X) = Inr folds"
    and fl: "fold_loop caps self X y ps [] [] folds = Inr (accs, bs)"
    and r: "r = \<lparr>params = ps, accuracy = np_mean accs, bias = np_mean bs\<rparr>"
    by (auto simp: evaluate_params_def bind_result_Inr_iff)
  from fold_loop_Inr[OF fl] obtain ms where
    ms: "map (evaluate_fold caps self X y ps) folds = map Inr ms"
      "accs = map fst ms" "bs = map snd ms"
    by auto
  have len: "length folds = kf" using sp by (rule length_KFold_split)
  have lms: "length ms = kf" using ms(1) len by (metis length_map)
  show ?thesis
    using sp ms lms len r by (auto simp: np_mean_def)
qed

lemma fit_loop_char:
  "fit_loop caps self kf X y grid = (self', out) \<Longrightarrow>
   \<exists>recs. self' = self\<lparr>results := results self @ recs\<rparr>
      \<and> map (evaluate_params caps self kf X y) (take (length recs) grid) = map Inr recs
      \<and> (case out of
            Inr u \<Rightarrow> length recs = length grid
          | Inl e \<Rightarrow> length recs < length grid
                     \<and> evaluate_params caps self kf X y (grid ! length recs) = Inl e)"
proof (induction grid arbitrary: self)
  case Nil
  then have "self' = self\<lparr>results := results self @ []\<rparr>" "out = Inr ()" by simp_all
  then show ?case by (intro exI[of _ "[]"]) simp
next
  case (Cons ps grid)
  show ?case
  proof (cases "evaluate_params caps self kf X y ps")
    case (Inl e)
    with Cons.prems have "self' = self\<lparr>results := results self @ []\<rparr>" "out = Inl e" by simp_all
    then show ?thesis using Inl by (intro exI[of _ "[]"]) simp
  next
    case (Inr r)
    let ?s = "self\<lparr>results := results self @ [r]\<rparr>"
    from Cons.prems Inr have "fit_loop caps ?s kf X y grid = (self', out)" by simp
    from Cons.IH[OF this] obtain recs where
      s': "self' = ?s\<lparr>results := results ?s @ recs\<rparr>"
      and ev: "map (evaluate_params caps ?s kf X y) (take (length recs) grid) = map Inr recs"
      and out: "(case out of
            Inr u \<Rightarrow> length recs = length grid
          | Inl e \<Rightarrow> length recs < length grid
                     \<and> evaluate_params caps ?s kf X y (grid ! length recs) = Inl e)"
      by blast
    have "self' = self\<lparr>results := results self @ (r # recs)\<rparr>" using s' by simp
    moreover have "map (evaluate_params caps self kf X y) (take (length (r # recs)) (ps # grid))
        = map Inr (r # recs)"
      using ev Inr by (simp add: evaluate_params_results_update)
    moreover have "(case out of
            Inr u \<Rightarrow> length (r # recs) = length (ps # grid)
          | Inl e \<Rightarrow> length (r # recs) < length (ps # grid)
                     \<and> evaluate_params caps self kf X y ((ps # grid) ! length (r # recs)) = Inl e)"
      using out by (simp add: evaluate_params_results_update split: sum.splits)
    ultimately show ?thesis by blast
  qed
qed

lemma prod_list_insort_key:
  "prod_list (map g (insort_key f x xs)) = g x * prod_list (map g xs)" for g :: "'a \<Rightarrow> nat"
  by (induction xs) simp_all

lemma prod_list_sort_key:
  "prod_list (map g (sort_key f xs)) = prod_list (map g xs)" for g :: "'a \<Rightarrow> nat"
  by (induction xs) (simp_all add: prod_list_insort_key)

lemma length_product_lists_prod:
  "length (product_lists xss) = prod_list (map length xss)"
  by (induction xss) (simp_all add: length_concat comp_def sum_list_triv)

lemma length_ParameterGrid:
  "ParameterGrid grid = Inr configs \<Longrightarrow>
   length configs = prod_list (map (\<lambda>kv. length (snd kv)) grid)"
  using prod_list_sort_key[of "\<lambda>kv. length (snd kv)" fst grid]
  by (auto simp: ParameterGrid_def Let_def length_product_lists_prod comp_def split: if_splits)

lemma map_Inr_params:
  assumes "map (evaluate_params caps self kf X y) configs = map Inr recs"
  shows "map params recs = configs"
proof -
  have len: "length recs = length configs" using assms by (metis length_map)
  have "\<forall>i<length configs. params (recs ! i) = configs ! i"
  proof (intro allI impI)
    fix i assume i: "i < length configs"
    have "map (evaluate_params caps self kf X y) configs ! i = map Inr recs ! i"
      using assms by simp
    then have "evaluate_params caps self kf X y (configs ! i) = Inr (recs ! i)"
      using i len by simp
    then show "params (recs ! i) = configs ! i" using evaluate_params_Inr by blast
  qed
  then show ?thesis using len by (simp add: list_eq_iff_nth_eq)
qed

lemma fit_char:
  assumes "fit caps self X y = (self', out)"
  shows "(\<exists>e. KFold (cv self) = Inl e \<and> self' = self \<and> out = Inl e)
    \<or> (\<exists>kf e. KFold (cv self) = Inr kf \<and> ParameterGrid (param_grid self) = Inl e
          \<and> self' = self \<and> out = Inl e)
    \<or> (\<exists>kf configs recs. KFold (cv self) = Inr kf
          \<and> ParameterGrid (param_grid self) = Inr configs
          \<and> self' = self\<lparr>results := results self @ recs\<rparr>
          \<and> map (evaluate_params caps self kf X y) (take (length recs) configs) = map Inr recs
          \<and> (case out of
                Inr u \<Rightarrow> length recs = length configs
              | Inl e \<Rightarrow> length recs < length configs
                         \<and> evaluate_params caps self kf X y (configs ! length recs) = Inl e))"
proof (cases "KFold (cv self)")
  case (Inl e)
  then show ?thesis using assms by (simp add: fit_def)
next
  case kf: (Inr kf)
  show ?thesis
  proof (cases "ParameterGrid (param_grid self)")
    case (Inl e)
    then show ?thesis using assms kf by (simp add: fit_def)
  next
    case (Inr configs)
    then have "fit_loop caps self kf X y configs = (self', out)"
      using assms kf by (simp add: fit_def)
    from fit_loop_char[OF this] show ?thesis using kf Inr by blast
  qed
qed

lemma fit_appends:
  assumes "fit caps self X y = (self', out)"
  shows "\<exists>recs. self' = self\<lparr>results := results self @ recs\<rparr>"
proof -
  have "self = self\<lparr>results := results self @ []\<rparr>" by simp
  then show ?thesis using fit_char[OF assms] by metis
qed

lemma fit_success:
  assumes "fit caps self X y = (self', Inr ())"
  shows "\<exists>kf configs recs. KFold (cv self) = Inr kf
          \<and> ParameterGrid (param_grid self) = Inr configs
          \<and> self' = self\<lparr>results := results self @ recs\<rparr>
          \<and> map (evaluate_params caps self kf X y) configs = map Inr recs
          \<and> map params recs = configs"
proof -
  from fit_char[OF assms] obtain kf configs recs where
    a: "KFold (cv self) = Inr kf" "ParameterGrid (param_grid self) = Inr configs"
       "self' = self\<lparr>results := results self @ recs\<rparr>"
       "map (evaluate_params caps self kf X y) (take (length recs) configs) = map Inr recs"
       "length recs = length configs"
    by auto
  from a(4,5) have m: "map (evaluate_params caps self kf X y) configs = map Inr recs" by simp
  from map_Inr_params[OF m] a(1,2,3) m show ?thesis by blast
qed

subsection \<open>When \<open>fit\<close> returns normally\<close>

lemma sum_list_fold_sizes_aux:
  "sum_list (map (\<lambda>i. q + (if i < r then 1 else 0)) [0..<k]) = k * q + min r k" for q r k :: nat
  by (induction k) (auto simp: min_def)

lemma sum_list_fold_sizes:
  assumes "0 < n_splits"
  shows "sum_list (fold_sizes n_splits n_samples) = n_samples"
proof -
  have "n_samples mod n_splits < n_splits" using assms by simp
  then have "min (n_samples mod n_splits) n_splits = n_samples mod n_splits" by simp
  then have "sum_list (fold_sizes n_splits n_samples)
      = n_splits * (n_samples div n_splits) + n_samples mod n_splits"
    unfolding fold_sizes_def by (simp add: sum_list_fold_sizes_aux)
  then show ?thesis by simp
qed

lemma test_ranges_bounds:
  "(start, stop) \<in> set (test_ranges current sizes) \<Longrightarrow>
   current \<le> start \<and> start \<le> stop \<and> stop \<le> current + sum_list sizes"
proof (induction sizes arbitrary: current)
  case Nil
  then show ?case by simp
next
  case (Cons sz sizes)
  from Cons.prems consider "start = current \<and> stop = current + sz"
    | "(start, stop) \<in> set (test_ranges (current + sz) sizes)" by auto
  then show ?case
  proof cases
    case 1
    then show ?thesis by simp
  next
    case 2
    from Cons.IH[OF 2] show ?thesis by simp
  qed
qed

lemma KFold_split_in_range:
  assumes "KFold_split n_splits n_samples = Inr folds" "0 < n_splits"
    "(train_index, val_index) \<in> set folds"
  shows "(\<forall>i\<in>set train_index. i < n_samples) \<and> (\<forall>i\<in>set val_index. i < n_samples)"
proof -
  from assms(1,3) obtain start stop where
    r: "(start, stop) \<in> set (test_ranges 0 (fold_sizes n_splits n_samples))"
    and t: "train_index = [0..<start] @ [stop..<n_samples]" and v: "val_index = [start..<stop]"
    by (auto simp: KFold_split_def split: if_splits)
  from test_ranges_bounds[OF r] sum_list_fold_sizes[OF assms(2), of n_samples]
  have "start \<le> stop" "stop \<le> n_samples" by simp_all
  then show ?thesis unfolding t v by auto
qed

lemma getitem_iloc:
  assumes "iloc f idx = Inr g" "c \<in> fst ` set (cols f)"
  shows "\<exists>vs. getitem g c = Inr vs \<and> length vs = length idx \<and> nrows g = length idx"
proof -
  from assms(1) have g: "g = \<lparr>nrows = length idx,
      cols = map (\<lambda>(c, vs). (c, map (nth vs) idx)) (cols f)\<rparr>"
    by (simp add: iloc_def split: if_splits)
  have "map_of (map (\<lambda>(c, vs). (c, map (nth vs) idx)) (cols f)) c
      = map_option (\<lambda>vs. map (nth vs) idx) (map_of (cols f) c)"
    by (induction "cols f") (auto simp: map_of_map)
  moreover from assms(2) obtain vs where "map_of (cols f) c = Some vs"
    by (metis domD dom_map_of_conv_image_fst)
  ultimately show ?thesis using g by (simp add: getitem_def)
qed

lemma iloc_Inr:
  "\<forall>i\<in>set idx. i < nrows f \<Longrightarrow> \<exists>g. iloc f idx = Inr g \<and> nrows g = length idx"
  by (simp add: iloc_def)

lemma iloc_series_Inr:
  "\<forall>i\<in>set idx. i < length vs \<Longrightarrow> \<exists>ws. iloc_series vs idx = Inr ws \<and> length ws = length idx"
  by (simp add: iloc_series_def)

lemma evaluate_fold_succeeds:
  assumes idx: "\<forall>i\<in>set train_index. i < nrows X" "\<forall>i\<in>set val_index. i < nrows X"
    and y: "nrows X \<le> length y"
    and prot: "protected_attribute self \<in> fst ` set (cols X)"
    and cl: "\<forall>e. \<exists>e'. clone caps e = Inr e'"
    and sp: "\<forall>e. \<exists>e'. set_params caps e ps = Inr e'"
    and ft: "\<forall>e F t. \<exists>e'. estimator_fit caps e F t = Inr e'"
    and pr: "\<forall>e F. \<exists>p. predict caps e F = Inr p \<and> length p = nrows F"
    and ac: "\<forall>a b. length a = length b \<longrightarrow> (\<exists>r. accuracy_score caps a b = Inr r)"
    and di: "\<forall>f c p v w. c \<in> fst ` set (cols f) \<and> p \<in> fst ` set (cols f)
               \<longrightarrow> (\<exists>r. calculate_disparate_impact caps f c p v w = Inr r)"
  shows "\<exists>acc b. evaluate_fold caps self X y ps (train_index, val_index) = Inr (acc, b)"
proof -
  from iloc_Inr[OF idx(1)] obtain Xt where Xt: "iloc X train_index = Inr Xt" by blast
  from iloc_Inr[OF idx(2)] obtain Xv where Xv: "iloc X val_index = Inr Xv"
    "nrows Xv = length val_index" by blast
  have "\<forall>i\<in>set train_index. i < length y" "\<forall>i\<in>set val_index. i < length y"
    using idx y by auto
  from iloc_series_Inr[OF this(1)] iloc_series_Inr[OF this(2)] obtain yt yv where
    yt: "iloc_series y train_index = Inr yt" and
    yv: "iloc_series y val_index = Inr yv" "length yv = length val_index"
    by blast
  from cl obtain m0 where m0: "clone caps (estimator self) = Inr m0" by blast
  from sp obtain m1 where m1: "set_params caps m0 ps = Inr m1" by blast
  from ft obtain m2 where m2: "estimator_fit caps m1 Xt yt = Inr m2" by blast
  from pr obtain preds where preds: "predict caps m2 Xv = Inr preds" "length preds = nrows Xv"
    by blast
  from ac yv(2) preds(2) Xv(2) obtain acc where acc: "accuracy_score caps yv preds = Inr acc"
    by metis
  from getitem_iloc[OF Xv(1) prot] obtain pv where
    pv: "getitem Xv (protected_attribute self) = Inr pv" "length pv = length val_index"
    by blast
  let ?pred = "outcome_column self @ ''_pred''"
  let ?t0 = "DataFrame (outcome_column self) yv (protected_attribute self) pv"
  have n0: "nrows ?t0 = length preds" using pv(2) preds(2) Xv(2) by (simp add: DataFrame_def)
  obtain T where T: "setitem ?t0 ?pred preds = Inr T"
    and Tc: "cols T = AList.update ?pred preds (cols ?t0)"
    using n0 by (simp add: setitem_def)
  have "?pred \<in> fst ` set (cols T)" "protected_attribute self \<in> fst ` set (cols T)"
    unfolding Tc by (simp_all add: DataFrame_def dom_update)
  with di obtain b where b: "calculate_disparate_impact caps T ?pred
      (protected_attribute self) (privileged_value self) (unprivileged_value self) = Inr b"
    by blast
  have "evaluate_fold caps self X y ps (train_index, val_index) = Inr (acc, b)"
    unfolding evaluate_fold_def
    by (simp add: Xt Xv(1) yt yv(1) m0 m1 m2 preds(1) acc pv(1) T b bind_result_simps)
  then show ?thesis by blast
qed

lemma fold_loop_succeeds:
  assumes "\<forall>indices\<in>set folds. \<exists>acc b. evaluate_fold caps self X y ps indices = Inr (acc, b)"
  shows "\<exists>accs bs. fold_loop caps self X y ps accs0 bs0 folds = Inr (accs, bs)"
  using assms
proof (induction folds arbitrary: accs0 bs0)
  case Nil
  then show ?case by simp
next
  case (Cons indices folds)
  then obtain acc b where "evaluate_fold caps self X y ps indices = Inr (acc, b)" by auto
  moreover from Cons obtain accs bs where
    "fold_loop caps self X y ps (accs0 @ [acc]) (bs0 @ [b]) folds = Inr (accs, bs)"
    by (metis list.set_intros(2))
  ultimately show ?case by simp
qed

lemma fit_loop_succeeds:
  assumes "\<forall>ps\<in>set configs. \<exists>r. evaluate_params caps self kf X y ps = Inr r"
  shows "\<exists>self'. fit_loop caps self kf X y configs = (self', Inr ())"
  using assms
proof (induction configs arbitrary: self)
  case Nil
  then show ?case by simp
next
  case (Cons ps configs)
  then obtain r where r: "evaluate_params caps self kf X y ps = Inr r" by auto
  have "\<forall>ps\<in>set configs. \<exists>r'. evaluate_params caps (self\<lparr>results := results self @ [r]\<rparr>)
      kf X y ps = Inr r'"
    using Cons.prems by (simp add: evaluate_params_results_update)
  from Cons.IH[OF this] r show ?case by simp
qed

text \<open>
  When the fold count is at least 2 and at most the number of training rows, the grid is
  accepted (no value list is empty), \<open>y_train\<close> has a label for every row, the protected
  attribute is a column of \<open>X_train\<close>, and no call of the estimator or of the metric
  functions fails (the predictions having one entry per row), \<open>fit\<close> returns normally.
\<close>

lemma fit_returns_normally:
  assumes cv: "2 \<le> cv self" "cv self \<le> int (nrows X)"
    and configs: "ParameterGrid (param_grid self) = Inr configs"
    and y: "nrows X \<le> length y"
    and prot: "protected_attribute self \<in> fst ` set (cols X)"
    and cl: "\<forall>e. \<exists>e'. clone caps e = Inr e'"
    and sp: "\<forall>e. \<forall>ps\<in>set configs. \<exists>e'. set_params caps e ps = Inr e'"
    and ft: "\<forall>e F t. \<exists>e'. estimator_fit caps e F t = Inr e'"
    and pr: "\<forall>e F. \<exists>p. predict caps e F = Inr p \<and> length p = nrows F"
    and ac: "\<forall>a b. length a = length b \<longrightarrow> (\<exists>r. accuracy_score caps a b = Inr r)"
    and di: "\<forall>f c p v w. c \<in> fst ` set (cols f) \<and> p \<in> fst ` set (cols f)
               \<longrightarrow> (\<exists>r. calculate_disparate_impact caps f c p v w = Inr r)"
  shows "\<exists>self'. fit caps self X y = (self', Inr ())"
proof -
  let ?kf = "nat (cv self)"
  have kf: "KFold (cv self) = Inr ?kf" using cv(1) by (simp add: KFold_def)
  have sp': "\<forall>e. \<exists>e'. set_params caps e ps = Inr e'" if "ps \<in> set configs" for ps
    using sp that by blast
  have pos: "0 < ?kf" and le: "?kf \<le> nrows X" using cv by simp_all
  then obtain folds where folds: "KFold_split ?kf (nrows X) = Inr folds"
    by (simp add: KFold_split_def)
  have "\<exists>r. evaluate_params caps self ?kf X y ps = Inr r" if ps: "ps \<in> set configs" for ps
  proof -
    have "\<forall>indices\<in>set folds. \<exists>acc b. evaluate_fold caps self X y ps indices = Inr (acc, b)"
    proof
      fix indices assume i: "indices \<in> set folds"
      obtain tr va where tv: "indices = (tr, va)" by (cases indices)
      from KFold_split_in_range[OF folds pos] i tv
      have "\<forall>i\<in>set tr. i < nrows X" "\<forall>i\<in>set va. i < nrows X" by blast+
      from evaluate_fold_succeeds[OF this y prot cl sp'[OF ps] ft pr ac di]
      show "\<exists>acc b. evaluate_fold caps self X y ps indices = Inr (acc, b)"
        unfolding tv by blast
    qed
    from fold_loop_succeeds[OF this, of "[]" "[]"] obtain accs bs where
      "fold_loop caps self X y ps [] [] folds = Inr (accs, bs)" by blast
    then show ?thesis by (simp add: evaluate_params_def folds bind_result_simps)
  qed
  then have "\<forall>ps\<in>set configs. \<exists>r. evaluate_params caps self ?kf X y ps = Inr r" by blast
  from fit_loop_succeeds[OF this] show ?thesis by (simp add: fit_def kf configs)
qed

lemma toy_fit_returns_normally:
  "\<exists>self'. fit toy_caps (toy_search toy_grid) toy_X toy_y = (self', Inr ())"
proof (rule fit_returns_normally)
  show "2 \<le> cv (toy_search toy_grid)" "cv (toy_search toy_grid) \<le> int (nrows toy_X)"
    "nrows toy_X \<le> length toy_y"
    "protected_attribute (toy_search toy_grid) \<in> fst ` set (cols toy_X)"
    by (simp_all add: toy_search_def init_def toy_X_def toy_y_def toy_grid_def)
  show "\<forall>e. \<exists>e'. clone toy_caps e = Inr e'"
    "\<forall>e F t. \<exists>e'. estimator_fit toy_caps e F t = Inr e'"
    "\<forall>e F. \<exists>p. predict toy_caps e F = Inr p \<and> length p = nrows F"
    "\<forall>a b. length a = length b \<longrightarrow> (\<exists>r. accuracy_score toy_caps a b = Inr r)"
    by (simp_all add: toy_caps_def)
  show "\<forall>f c p v w. c \<in> fst ` set (cols f) \<and> p \<in> fst ` set (cols f)
               \<longrightarrow> (\<exists>r. calculate_disparate_impact toy_caps f c p v w = Inr r)"
  proof (intro allI impI)
    fix f :: "int frame" and c p :: string and v w :: int
    assume "c \<in> fst ` set (cols f) \<and> p \<in> fst ` set (cols f)"
    then obtain vs where "map_of (cols f) c = Some vs"
      by (metis domD dom_map_of_conv_image_fst)
    then have "calculate_disparate_impact toy_caps f c p v w
        = Inr (real_of_int (sum_list vs) / 10)"
      by (simp add: toy_caps_def getitem_def)
    then show "\<exists>r. calculate_disparate_impact toy_caps f c p v w = Inr r" by blast
  qed
  show "ParameterGrid (param_grid (toy_search toy_grid))
      = Inr [[(''C'', 1), (''kernel'', 1)], [(''C'', 1), (''kernel'', 2)],
             [(''C'', 2), (''kernel'', 1)], [(''C'', 2), (''kernel'', 2)],
             [(''C'', 3), (''kernel'', 1)], [(''C'', 3), (''kernel'', 2)]]"
    by code_simp
  show "\<forall>e. \<forall>ps\<in>set [[(''C'', 1), (''kernel'', 1)], [(''C'', 1), (''kernel'', 2)],
             [(''C'', 2), (''kernel'', 1)], [(''C'', 2), (''kernel'', 2)],
             [(''C'', 3), (''kernel'', 1)], [(''C'', 3), (''kernel'', 2 :: int)]].
          \<exists>e'. set_params toy_caps e ps = Inr e'"
    by (simp add: toy_caps_def)
qed

subsection \<open>The fold body over the estimator and the metric functions\<close>

lemma evaluate_fold_Inr_iff:
  "evaluate_fold caps self X y ps indices = Inr (acc, b)
     \<longleftrightarrow> fold_measured caps self X y ps indices acc b"
  unfolding evaluate_fold_def case_prod_unfold bind_result_Inr_iff
  by (auto simp del: ex_simps)

lemma evaluate_fold_Inl_iff:
  "evaluate_fold caps self X y ps indices = Inl e
     \<longleftrightarrow> fold_raises caps self X y ps indices e"
  unfolding evaluate_fold_def case_prod_unfold bind_result_Inl_iff
  by simp

lemma map_Inr_nth:
  assumes "map f xs = map Inr ys"
  shows "length ys = length xs \<and> (\<forall>i<length xs. f (xs ! i) = Inr (ys ! i))"
proof -
  have len: "length ys = length xs" using assms by (metis length_map)
  have "\<forall>i<length xs. f (xs ! i) = Inr (ys ! i)"
  proof (intro allI impI)
    fix i assume i: "i < length xs"
    have "map f xs ! i = map Inr ys ! i" using assms by simp
    then show "f (xs ! i) = Inr (ys ! i)" using i len by simp
  qed
  then show ?thesis using len by simp
qed

lemma fold_loop_Inl:
  "fold_loop caps self X y ps accs bs folds = Inl e \<Longrightarrow>
   \<exists>j<length folds.
      (\<forall>j'<j. \<exists>a b. evaluate_fold caps self X y ps (folds ! j') = Inr (a, b))
    \<and> evaluate_fold caps self X y ps (folds ! j) = Inl e"
proof (induction folds arbitrary: accs bs)
  case Nil
  then show ?case by simp
next
  case (Cons indices folds)
  show ?case
  proof (cases "evaluate_fold caps self X y ps indices")
    case (Inl e')
    then have "e' = e" using Cons.prems by simp
    then have "evaluate_fold caps self X y ps ((indices # folds) ! 0) = Inl e"
      using Inl by simp
    then show ?thesis by (intro exI[of _ 0]) simp
  next
    case (Inr ab)
    obtain a b where ab: "ab = (a, b)" by (cases ab)
    from Cons.prems Inr ab
    have "fold_loop caps self X y ps (accs @ [a]) (bs @ [b]) folds = Inl e" by simp
    from Cons.IH[OF this] obtain j where j: "j < length folds"
      "\<forall>j'<j. \<exists>a b. evaluate_fold caps self X y ps (folds ! j') = Inr (a, b)"
      "evaluate_fold caps self X y ps (folds ! j) = Inl e"
      by blast
    have "\<forall>j'<Suc j. \<exists>a b. evaluate_fold caps self X y ps ((indices # folds) ! j') = Inr (a, b)"
    proof (intro allI impI)
      fix j' assume "j' < Suc j"
      then show "\<exists>a b. evaluate_fold caps self X y ps ((indices # folds) ! j') = Inr (a, b)"
        using j(2) Inr ab by (cases j') auto
    qed
    moreover have "evaluate_fold caps self X y ps ((indices # folds) ! Suc j) = Inl e"
      using j(3) by simp
    moreover have "Suc j < length (indices # folds)" using j(1) by simp
    ultimately show ?thesis by blast
  qed
qed

lemma fold_loop_fails:
  assumes "j < length folds"
    and "\<forall>j'<j. \<exists>a b. evaluate_fold caps self X y ps (folds ! j') = Inr (a, b)"
    and "evaluate_fold caps self X y ps (folds ! j) = Inl e"
  shows "fold_loop caps self X y ps accs bs folds = Inl e"
  using assms
proof (induction folds arbitrary: j accs bs)
  case Nil
  then show ?case by simp
next
  case (Cons indices folds)
  show ?case
  proof (cases j)
    case 0
    then show ?thesis using Cons.prems(3) by simp
  next
    case (Suc k)
    from Cons.prems(2) Suc obtain a b where
      ab: "evaluate_fold caps self X y ps indices = Inr (a, b)" by fastforce
    have k: "k < length folds" using Cons.prems(1) Suc by simp
    have "\<forall>j'<k. \<exists>a b. evaluate_fold caps self X y ps (folds ! j') = Inr (a, b)"
    proof (intro allI impI)
      fix j' assume "j' < k"
      then have "Suc j' < j" using Suc by simp
      with Cons.prems(2) show "\<exists>a b. evaluate_fold caps self X y ps (folds ! j') = Inr (a, b)"
        by fastforce
    qed
    moreover have "evaluate_fold caps self X y ps (folds ! k) = Inl e"
      using Cons.prems(3) Suc by simp
    ultimately have "fold_loop caps self X y ps (accs @ [a]) (bs @ [b]) folds = Inl e"
      using Cons.IH[OF k] by blast
    then show ?thesis using ab by simp
  qed
qed

lemma evaluate_params_Inl:
  assumes "evaluate_params caps self kf X y ps = Inl e"
  shows "KFold_split kf (nrows X) = Inl e
    \<or> (\<exists>folds j. KFold_split kf (nrows X) = Inr folds \<and> j < length folds
          \<and> (\<forall>j'<j. \<exists>a b. fold_measured caps self X y ps (folds ! j') a b)
          \<and> fold_raises caps self X y ps (folds ! j) e)"
proof (cases "KFold_split kf (nrows X)")
  case (Inl e')
  then show ?thesis using assms by (simp add: evaluate_params_def bind_result_simps)
next
  case (Inr folds)
  have "fold_loop caps self X y ps [] [] folds = Inl e"
  proof (cases "fold_loop caps self X y ps [] [] folds")
    case (Inl e')
    then show ?thesis using assms Inr by (simp add: evaluate_params_def bind_result_simps)
  next
    case r: (Inr ab)
    then show ?thesis using assms Inr
      by (simp add: evaluate_params_def bind_result_simps split: prod.splits)
  qed
  from fold_loop_Inl[OF this] obtain j where "j < length folds"
    "\<forall>j'<j. \<exists>a b. evaluate_fold caps self X y ps (folds ! j') = Inr (a, b)"
    "evaluate_fold caps self X y ps (folds ! j) = Inl e"
    by blast
  then have "j < length folds"
    "\<forall>j'<j. \<exists>a b. fold_measured caps self X y ps (folds ! j') a b"
    "fold_raises caps self X y ps (folds ! j) e"
    unfolding evaluate_fold_Inr_iff evaluate_fold_Inl_iff by blast+
  then show ?thesis using Inr by blast
qed

lemma evaluate_params_fails:
  assumes "KFold_split kf (nrows X) = Inr folds" "j < length folds"
    and "\<forall>j'<j. \<exists>a b. fold_measured caps self X y ps (folds ! j') a b"
    and "fold_raises caps self X y ps (folds ! j) e"
  shows "evaluate_params caps self kf X y ps = Inl e"
proof -
  have "\<forall>j'<j. \<exists>a b. evaluate_fold caps self X y ps (folds ! j') = Inr (a, b)"
    "evaluate_fold caps self X y ps (folds ! j) = Inl e"
    unfolding evaluate_fold_Inr_iff evaluate_fold_Inl_iff using assms(3,4) by blast+
  from fold_loop_fails[OF assms(2) this]
  show ?thesis by (simp add: evaluate_params_def assms(1) bind_result_simps)
qed

lemma evaluate_params_succeeds:
  assumes "KFold_split kf (nrows X) = Inr folds"
    and "\<forall>indices\<in>set folds. \<exists>a b. fold_measured caps self X y ps indices a b"
  shows "\<exists>r. evaluate_params caps self kf X y ps = Inr r"
proof -
  have "\<forall>indices\<in>set folds. \<exists>a b. evaluate_fold caps self X y ps indices = Inr (a, b)"
    unfolding evaluate_fold_Inr_iff using assms(2) by blast
  from fold_loop_succeeds[OF this, of "[]" "[]"] obtain accs bs where
    "fold_loop caps self X y ps [] [] folds = Inr (accs, bs)" by blast
  then show ?thesis by (simp add: evaluate_params_def assms(1) bind_result_simps)
qed

lemma fit_loop_fails:
  assumes k: "k < length configs"
    and ok: "\<forall>i<k. \<exists>r. evaluate_params caps self kf X y (configs ! i) = Inr r"
    and bad: "evaluate_params caps self kf X y (configs ! k) = Inl e"
  shows "\<exists>recs. fit_loop caps self kf X y configs
            = (self\<lparr>results := results self @ recs\<rparr>, Inl e)
          \<and> length recs = k \<and> map params recs = take k configs"
proof -
  obtain s' out where run: "fit_loop caps self kf X y configs = (s', out)"
    by (cases "fit_loop caps self kf X y configs")
  from fit_loop_char[OF run] obtain recs where
    s': "s' = self\<lparr>results := results self @ recs\<rparr>"
    and ev: "map (evaluate_params caps self kf X y) (take (length recs) configs) = map Inr recs"
    and out: "(case out of
            Inr u \<Rightarrow> length recs = length configs
          | Inl e \<Rightarrow> length recs < length configs
                     \<and> evaluate_params caps self kf X y (configs ! length recs) = Inl e)"
    by blast
  have le: "length recs \<le> length configs"
    using out by (cases out) simp_all
  have evn: "\<forall>i<length recs. evaluate_params caps self kf X y (configs ! i) = Inr (recs ! i)"
    using map_Inr_nth[OF ev] le by simp
  have nk: "\<not> k < length recs"
  proof
    assume "k < length recs"
    with evn have "evaluate_params caps self kf X y (configs ! k) = Inr (recs ! k)" by blast
    with bad show False by simp
  qed
  obtain e' where oe: "out = Inl e'"
  proof (cases out)
    case (Inl e')
    then show ?thesis using that by blast
  next
    case (Inr u)
    then have "length recs = length configs" using out by simp
    with nk k show ?thesis by simp
  qed
  with out have lt: "length recs < length configs"
    and fe: "evaluate_params caps self kf X y (configs ! length recs) = Inl e'"
    by simp_all
  have "\<not> length recs < k"
  proof
    assume "length recs < k"
    with ok obtain r where "evaluate_params caps self kf X y (configs ! length recs) = Inr r"
      by blast
    with fe show False by simp
  qed
  with nk have len: "length recs = k" by simp
  with fe bad have "e' = e" by simp
  moreover have "map params recs = take k configs"
    using map_Inr_params[OF ev] len by simp
  ultimately show ?thesis using run s' oe len by blast
qed

section \<open>The search\<close>

subsection \<open>One record per configuration\<close>

text \<open>
  Claim C1. A call of \<open>fit\<close> that returns normally appends to the result list exactly
  one record per configuration of \<open>ParameterGrid(param_grid)\<close>, in the order of that
  enumeration (keys sorted, last key varying fastest); the number of appended records is
  the product of the lengths of the value lists, none of which is empty. Nothing already
  in the list is changed. (Lemma \<open>fit_returns_normally\<close> says when the call does return
  normally.)
\<close>

theorem fit_one_record_per_configuration:
  assumes "fit caps self X_train y_train = (self', Inr ())"
  shows "\<exists>configs recs. ParameterGrid (param_grid self) = Inr configs
          \<and> configs = map (zip (map fst (sort_key fst (param_grid self))))
                          (product_lists (map snd (sort_key fst (param_grid self))))
          \<and> (\<forall>kv\<in>set (param_grid self). snd kv \<noteq> [])
          \<and> self' = self\<lparr>results := results self @ recs\<rparr>
          \<and> map params recs = configs
          \<and> length recs = prod_list (map (\<lambda>kv. length (snd kv)) (param_grid self))"
proof -
  from fit_success[OF assms] obtain configs recs where
    a: "ParameterGrid (param_grid self) = Inr configs"
       "self' = self\<lparr>results := results self @ recs\<rparr>" "map params recs = configs"
    by blast
  have "length recs = length configs" using a(3) by (metis length_map)
  then have len: "length recs = prod_list (map (\<lambda>kv. length (snd kv)) (param_grid self))"
    using length_ParameterGrid[OF a(1)] by simp
  have ne: "\<forall>kv\<in>set (param_grid self). snd kv \<noteq> []"
    using a(1) by (auto simp: ParameterGrid_def split: if_splits)
  have ex: "configs = map (zip (map fst (sort_key fst (param_grid self))))
                          (product_lists (map snd (sort_key fst (param_grid self))))"
    using a(1) by (auto simp: ParameterGrid_def Let_def split: if_splits)
  show ?thesis using a len ne ex by blast
qed

lemma toy_fit_grid:
  "fit toy_caps (toy_search toy_grid) toy_X toy_y
     = ((toy_search toy_grid)\<lparr>results :=
          [\<lparr>params = [(''C'', 1), (''kernel'', 1)], accuracy = 1 / 2, bias = 1 / 10\<rparr>,
           \<lparr>params = [(''C'', 1), (''kernel'', 2)], accuracy = 1 / 2, bias = 1 / 10\<rparr>,
           \<lparr>params = [(''C'', 2), (''kernel'', 1)], accuracy = 1 / 2, bias = 1 / 5\<rparr>,
           \<lparr>params = [(''C'', 2), (''kernel'', 2)], accuracy = 1 / 2, bias = 1 / 5\<rparr>,
           \<lparr>params = [(''C'', 3), (''kernel'', 1)], accuracy = 0, bias = 3 / 10\<rparr>,
           \<lparr>params = [(''C'', 3), (''kernel'', 2)], accuracy = 0, bias = 3 / 10\<rparr>]\<rparr>, Inr ())"
  by code_simp

theorem fit_one_record_per_configuration_witness:
  "fit toy_caps (toy_search toy_grid) toy_X toy_y
     = (fst (fit toy_caps (toy_search toy_grid) toy_X toy_y), Inr ())
   \<and> (\<exists>configs recs. ParameterGrid (param_grid (toy_search toy_grid)) = Inr configs
          \<and> fst (fit toy_caps (toy_search toy_grid) toy_X toy_y)
              = (toy_search toy_grid)\<lparr>results := results (toy_search toy_grid) @ recs\<rparr>
          \<and> map params recs = configs
          \<and> length recs = 6)"
proof -
  have run: "fit toy_caps (toy_search toy_grid) toy_X toy_y
     = (fst (fit toy_caps (toy_search toy_grid) toy_X toy_y), Inr ())"
    by (simp add: toy_fit_grid)
  have six: "prod_list (map (\<lambda>kv. length (snd kv)) (param_grid (toy_search toy_grid))) = 6"
    by (simp add: toy_search_def toy_grid_def init_def)
  from fit_one_record_per_configuration[OF run] six run show ?thesis by simp
qed

subsection \<open>Means over the folds\<close>

text \<open>
  Claim C6. Every record that a call of \<open>fit\<close> appends (whether the call then returns
  or fails later) belongs to a configuration for which the splitter gave exactly \<open>cv\<close>
  folds, \<open>cv\<close> being at least 2. Each of these folds was measured with the record's
  configuration: its accuracy is the value \<open>accuracy_score\<close> returned for that fold and
  its bias the value \<open>calculate_disparate_impact\<close> returned for it. The record holds
  the arithmetic mean of these \<open>cv\<close> accuracies as its accuracy and the arithmetic mean of
  these \<open>cv\<close> biases as its bias.
\<close>

theorem fit_records_are_means_over_cv_folds:
  assumes "fit caps self X_train y_train = (self', out)"
  shows "\<exists>recs. self' = self\<lparr>results := results self @ recs\<rparr>
    \<and> (\<forall>r\<in>set recs.
          2 \<le> cv self
        \<and> (\<exists>folds ms. KFold_split (nat (cv self)) (nrows X_train) = Inr folds
              \<and> int (length folds) = cv self
              \<and> int (length ms) = cv self
              \<and> (\<forall>i<length folds.
                    fold_measured caps self X_train y_train (params r) (folds ! i)
                      (fst (ms ! i)) (snd (ms ! i)))
              \<and> accuracy r = sum_list (map fst ms) / real_of_int (cv self)
              \<and> bias r = sum_list (map snd ms) / real_of_int (cv self)))"
proof -
  from fit_char[OF assms] consider
    (early) "self' = self"
  | (loop) kf configs recs where "KFold (cv self) = Inr kf"
      "self' = self\<lparr>results := results self @ recs\<rparr>"
      "map (evaluate_params caps self kf X_train y_train) (take (length recs) configs)
         = map Inr recs"
    by blast
  then show ?thesis
  proof cases
    case early
    then have "self' = self\<lparr>results := results self @ []\<rparr>" by simp
    then show ?thesis by (intro exI[of _ "[]"]) simp
  next
    case loop
    from KFold_Inr[OF loop(1)] have cv: "2 \<le> cv self" "kf = nat (cv self)" by simp_all
    have "\<exists>folds ms. KFold_split (nat (cv self)) (nrows X_train) = Inr folds
              \<and> int (length folds) = cv self
              \<and> int (length ms) = cv self
              \<and> (\<forall>i<length folds.
                    fold_measured caps self X_train y_train (params r) (folds ! i)
                      (fst (ms ! i)) (snd (ms ! i)))
              \<and> accuracy r = sum_list (map fst ms) / real_of_int (cv self)
              \<and> bias r = sum_list (map snd ms) / real_of_int (cv self)"
      if r: "r \<in> set recs" for r
    proof -
      from r obtain i where i: "i < length recs" "recs ! i = r"
        by (auto simp: in_set_conv_nth)
      let ?cs = "take (length recs) configs"
      from map_Inr_nth[OF loop(3)] i
      have ev: "evaluate_params caps self kf X_train y_train (?cs ! i) = Inr r" by auto
      from evaluate_params_Inr[OF ev] obtain folds ms where
        p: "params r = ?cs ! i" and
        f: "KFold_split kf (nrows X_train) = Inr folds" "length folds = kf"
           "map (evaluate_fold caps self X_train y_train (?cs ! i)) folds = map Inr ms"
           "length ms = kf"
           "accuracy r = sum_list (map fst ms) / real kf"
           "bias r = sum_list (map snd ms) / real kf"
        by blast
      have rk: "real kf = real_of_int (cv self)" "int kf = cv self" using cv by simp_all
      have "\<forall>j<length folds. evaluate_fold caps self X_train y_train (params r) (folds ! j)
          = Inr (fst (ms ! j), snd (ms ! j))"
        using map_Inr_nth[OF f(3)] p by simp
      then have m: "\<forall>j<length folds.
          fold_measured caps self X_train y_train (params r) (folds ! j)
            (fst (ms ! j)) (snd (ms ! j))"
        unfolding evaluate_fold_Inr_iff .
      have a: "KFold_split (nat (cv self)) (nrows X_train) = Inr folds"
        "int (length folds) = cv self" "int (length ms) = cv self"
        "accuracy r = sum_list (map fst ms) / real_of_int (cv self)"
        "bias r = sum_list (map snd ms) / real_of_int (cv self)"
        using f cv(2) rk by simp_all
      show ?thesis
        by (rule exI[of _ folds], rule exI[of _ ms]) (intro conjI a m)
    qed
    then show ?thesis using loop(2) cv(1) by blast
  qed
qed

lemma toy_fit_three_rows:
  "fit toy_caps (toy_search [(''C'', [1, 2])]) toy_X3 toy_y3
     = ((toy_search [(''C'', [1, 2])])\<lparr>results :=
          [toy_record 1 (3 / 4) (3 / 20), toy_record 2 (1 / 4) (3 / 10)]\<rparr>, Inr ())"
  by code_simp

lemma toy_folds_three_rows:
  "KFold_split 2 (nrows toy_X3) = Inr [([2], [0, 1]), ([0, 1], [2])]"
  by code_simp

lemma toy_fold_measurements:
  "evaluate_fold toy_caps (toy_search [(''C'', [1, 2])]) toy_X3 toy_y3 [(''C'', 1)] ([2], [0, 1])
     = Inr (1 / 2, 1 / 5)"
  "evaluate_fold toy_caps (toy_search [(''C'', [1, 2])]) toy_X3 toy_y3 [(''C'', 1)] ([0, 1], [2])
     = Inr (1, 1 / 10)"
  by code_simp+

theorem fit_records_are_means_over_cv_folds_witness:
  "fit toy_caps (toy_search [(''C'', [1, 2])]) toy_X3 toy_y3
     = ((toy_search [(''C'', [1, 2])])\<lparr>results :=
          [toy_record 1 (3 / 4) (3 / 20), toy_record 2 (1 / 4) (3 / 10)]\<rparr>, Inr ())
   \<and> KFold_split 2 (nrows toy_X3) = Inr [([2], [0, 1]), ([0, 1], [2])]
   \<and> fold_measured toy_caps (toy_search [(''C'', [1, 2])]) toy_X3 toy_y3 [(''C'', 1)]
        ([2], [0, 1]) (1 / 2) (1 / 5)
   \<and> fold_measured toy_caps (toy_search [(''C'', [1, 2])]) toy_X3 toy_y3 [(''C'', 1)]
        ([0, 1], [2]) 1 (1 / 10)
   \<and> accuracy (toy_record 1 (3 / 4) (3 / 20)) = (1 / 2 + 1) / 2
   \<and> bias (toy_record 1 (3 / 4) (3 / 20)) = (1 / 5 + 1 / 10) / 2
   \<and> (\<exists>folds ms. KFold_split 2 (nrows toy_X3) = Inr folds
         \<and> length folds = 2 \<and> length ms = 2
         \<and> fold_measured toy_caps (toy_search [(''C'', [1, 2])]) toy_X3 toy_y3 [(''C'', 1)]
              (folds ! 0) (fst (ms ! 0)) (snd (ms ! 0))
         \<and> fold_measured toy_caps (toy_search [(''C'', [1, 2])]) toy_X3 toy_y3 [(''C'', 1)]
              (folds ! 1) (fst (ms ! 1)) (snd (ms ! 1))
         \<and> accuracy (toy_record 1 (3 / 4) (3 / 20)) = sum_list (map fst ms) / 2
         \<and> bias (toy_record 1 (3 / 4) (3 / 20)) = sum_list (map snd ms) / 2)"
proof -
  let ?s = "toy_search [(''C'', [1, 2])]"
  let ?r = "toy_record 1 (3 / 4) (3 / 20)"
  note run = toy_fit_three_rows
  have cv: "cv ?s = 2" and emp: "results ?s = []" by (simp_all add: toy_search_def init_def)
  from fit_records_are_means_over_cv_folds[OF run] obtain recs where
    recs: "?s\<lparr>results := [?r, toy_record 2 (1 / 4) (3 / 10)]\<rparr>
             = ?s\<lparr>results := results ?s @ recs\<rparr>"
    and all: "\<forall>r\<in>set recs. 2 \<le> cv ?s
        \<and> (\<exists>folds ms. KFold_split (nat (cv ?s)) (nrows toy_X3) = Inr folds
              \<and> int (length folds) = cv ?s
              \<and> int (length ms) = cv ?s
              \<and> (\<forall>i<length folds.
                    fold_measured toy_caps ?s toy_X3 toy_y3 (params r) (folds ! i)
                      (fst (ms ! i)) (snd (ms ! i)))
              \<and> accuracy r = sum_list (map fst ms) / real_of_int (cv ?s)
              \<and> bias r = sum_list (map snd ms) / real_of_int (cv ?s))"
    by blast
  have "recs = [?r, toy_record 2 (1 / 4) (3 / 10)]"
    using arg_cong[OF recs, of results] emp by simp
  then have "?r \<in> set recs" by simp
  with all obtain folds ms where
    fm: "KFold_split (nat (cv ?s)) (nrows toy_X3) = Inr folds"
      "int (length folds) = cv ?s" "int (length ms) = cv ?s"
      "\<forall>i<length folds. fold_measured toy_caps ?s toy_X3 toy_y3 (params ?r) (folds ! i)
                      (fst (ms ! i)) (snd (ms ! i))"
      "accuracy ?r = sum_list (map fst ms) / real_of_int (cv ?s)"
      "bias ?r = sum_list (map snd ms) / real_of_int (cv ?s)"
    by blast
  have pr: "params ?r = [(''C'', 1)]" by (simp add: toy_record_def)
  have l2: "length folds = 2" "length ms = 2" using fm(2,3) cv by simp_all
  have f0: "fold_measured toy_caps ?s toy_X3 toy_y3 [(''C'', 1)]
              (folds ! 0) (fst (ms ! 0)) (snd (ms ! 0))"
    and f1: "fold_measured toy_caps ?s toy_X3 toy_y3 [(''C'', 1)]
              (folds ! 1) (fst (ms ! 1)) (snd (ms ! 1))"
    using fm(4) l2(1) unfolding pr by simp_all
  have ex: "\<exists>folds ms. KFold_split 2 (nrows toy_X3) = Inr folds
         \<and> length folds = 2 \<and> length ms = 2
         \<and> fold_measured toy_caps ?s toy_X3 toy_y3 [(''C'', 1)]
              (folds ! 0) (fst (ms ! 0)) (snd (ms ! 0))
         \<and> fold_measured toy_caps ?s toy_X3 toy_y3 [(''C'', 1)]
              (folds ! 1) (fst (ms ! 1)) (snd (ms ! 1))
         \<and> accuracy ?r = sum_list (map fst ms) / 2
         \<and> bias ?r = sum_list (map snd ms) / 2"
    apply (rule exI[of _ folds], rule exI[of _ ms])
    using fm(1,5,6) l2 f0 f1 cv by simp
  have vals: "accuracy ?r = (1 / 2 + 1) / 2" "bias ?r = (1 / 5 + 1 / 10) / 2"
    by (simp_all add: toy_record_def)
  show ?thesis
    using run toy_folds_three_rows toy_fold_measurements[unfolded evaluate_fold_Inr_iff]
      vals ex
    by (intro conjI)
qed

subsection \<open>Failure during the search\<close>

text \<open>
  Claim C8, as the code has it. First part: when \<open>fit\<close> fails with an error, the error
  comes from the splitter's constructor, from the grid, from the splitter, or from a call
  of the fold body that raised it in some fold of one configuration, the folds before it
  having been measured. No record is appended for that configuration or for any later
  one; the records of the configurations evaluated before it have been appended and stay
  in the result list of the object. Second part: when a call of the fold body raises \<open>e\<close>
  in fold \<open>j\<close> of configuration \<open>k\<close>, all folds of the configurations before \<open>k\<close> and
  the folds before \<open>j\<close> of configuration \<open>k\<close> having been measured, then \<open>fit\<close> fails
  with this \<open>e\<close>, and the object has exactly the \<open>k\<close> records of the configurations
  before \<open>k\<close> appended.
\<close>

theorem fit_failure_keeps_earlier_records:
  "(fit caps self X_train y_train = (self', Inl e) \<longrightarrow>
      (\<exists>recs. self' = self\<lparr>results := results self @ recs\<rparr>
        \<and> ((KFold (cv self) = Inl e \<and> recs = [])
          \<or> (\<exists>kf. KFold (cv self) = Inr kf \<and> ParameterGrid (param_grid self) = Inl e
                \<and> recs = [])
          \<or> (\<exists>kf configs. KFold (cv self) = Inr kf
              \<and> ParameterGrid (param_grid self) = Inr configs
              \<and> length recs < length configs
              \<and> map params recs = take (length recs) configs
              \<and> map (evaluate_params caps self kf X_train y_train) (take (length recs) configs)
                  = map Inr recs
              \<and> evaluate_params caps self kf X_train y_train (configs ! length recs) = Inl e
              \<and> (KFold_split kf (nrows X_train) = Inl e
                 \<or> (\<exists>folds j. KFold_split kf (nrows X_train) = Inr folds \<and> j < length folds
                      \<and> (\<forall>j'<j. \<exists>a b. fold_measured caps self X_train y_train
                                          (configs ! length recs) (folds ! j') a b)
                      \<and> fold_raises caps self X_train y_train
                           (configs ! length recs) (folds ! j) e))))))
   \<and> (KFold (cv self) = Inr kf \<and> ParameterGrid (param_grid self) = Inr configs
        \<and> KFold_split kf (nrows X_train) = Inr folds
        \<and> k < length configs \<and> j < length folds
        \<and> (\<forall>i<k. \<forall>indices\<in>set folds.
              \<exists>a b. fold_measured caps self X_train y_train (configs ! i) indices a b)
        \<and> (\<forall>j'<j. \<exists>a b. fold_measured caps self X_train y_train (configs ! k) (folds ! j') a b)
        \<and> fold_raises caps self X_train y_train (configs ! k) (folds ! j) e
      \<longrightarrow> (\<exists>recs. fit caps self X_train y_train
                     = (self\<lparr>results := results self @ recs\<rparr>, Inl e)
                \<and> length recs = k \<and> map params recs = take k configs))"
proof (intro conjI impI)
  assume run: "fit caps self X_train y_train = (self', Inl e)"
  have nil: "self = self\<lparr>results := results self @ []\<rparr>" by simp
  from fit_char[OF run] consider
    (kfold) "KFold (cv self) = Inl e" "self' = self"
  | (grid) kf where "KFold (cv self) = Inr kf" "ParameterGrid (param_grid self) = Inl e"
      "self' = self"
  | (loop) kf configs recs where "KFold (cv self) = Inr kf"
      "ParameterGrid (param_grid self) = Inr configs"
      "self' = self\<lparr>results := results self @ recs\<rparr>"
      "map (evaluate_params caps self kf X_train y_train) (take (length recs) configs)
         = map Inr recs"
      "length recs < length configs"
      "evaluate_params caps self kf X_train y_train (configs ! length recs) = Inl e"
    by auto
  then show "\<exists>recs. self' = self\<lparr>results := results self @ recs\<rparr>
        \<and> ((KFold (cv self) = Inl e \<and> recs = [])
          \<or> (\<exists>kf. KFold (cv self) = Inr kf \<and> ParameterGrid (param_grid self) = Inl e
                \<and> recs = [])
          \<or> (\<exists>kf configs. KFold (cv self) = Inr kf
              \<and> ParameterGrid (param_grid self) = Inr configs
              \<and> length recs < length configs
              \<and> map params recs = take (length recs) configs
              \<and> map (evaluate_params caps self kf X_train y_train) (take (length recs) configs)
                  = map Inr recs
              \<and> evaluate_params caps self kf X_train y_train (configs ! length recs) = Inl e
              \<and> (KFold_split kf (nrows X_train) = Inl e
                 \<or> (\<exists>folds j. KFold_split kf (nrows X_train) = Inr folds \<and> j < length folds
                      \<and> (\<forall>j'<j. \<exists>a b. fold_measured caps self X_train y_train
                                          (configs ! length recs) (folds ! j') a b)
                      \<and> fold_raises caps self X_train y_train
                           (configs ! length recs) (folds ! j) e))))"
  proof cases
    case kfold
    then show ?thesis using nil by (intro exI[of _ "[]"]) simp
  next
    case grid
    then show ?thesis using nil by (intro exI[of _ "[]"]) simp
  next
    case loop
    from map_Inr_params[OF loop(4)] have p: "map params recs = take (length recs) configs" .
    note loc = evaluate_params_Inl[OF loop(6)]
    show ?thesis
      apply (rule exI[of _ recs], rule conjI[OF loop(3)])
      apply (rule disjI2, rule disjI2)
      apply (rule exI[of _ kf], rule exI[of _ configs])
      using loop p loc by (intro conjI)
  qed
next
  assume a: "KFold (cv self) = Inr kf \<and> ParameterGrid (param_grid self) = Inr configs
        \<and> KFold_split kf (nrows X_train) = Inr folds
        \<and> k < length configs \<and> j < length folds
        \<and> (\<forall>i<k. \<forall>indices\<in>set folds.
              \<exists>a b. fold_measured caps self X_train y_train (configs ! i) indices a b)
        \<and> (\<forall>j'<j. \<exists>a b. fold_measured caps self X_train y_train (configs ! k) (folds ! j') a b)
        \<and> fold_raises caps self X_train y_train (configs ! k) (folds ! j) e"
  then have kf: "KFold (cv self) = Inr kf" and pg: "ParameterGrid (param_grid self) = Inr configs"
    and sp: "KFold_split kf (nrows X_train) = Inr folds"
    and k: "k < length configs" and j: "j < length folds"
    and ok: "\<forall>i<k. \<forall>indices\<in>set folds.
              \<exists>a b. fold_measured caps self X_train y_train (configs ! i) indices a b"
    and okj: "\<forall>j'<j. \<exists>a b. fold_measured caps self X_train y_train (configs ! k) (folds ! j') a b"
    and bad: "fold_raises caps self X_train y_train (configs ! k) (folds ! j) e"
    by blast+
  have "\<forall>i<k. \<exists>r. evaluate_params caps self kf X_train y_train (configs ! i) = Inr r"
    using evaluate_params_succeeds[OF sp] ok by blast
  moreover have "evaluate_params caps self kf X_train y_train (configs ! k) = Inl e"
    using evaluate_params_fails[OF sp j okj bad] .
  ultimately have "\<exists>recs. fit_loop caps self kf X_train y_train configs
            = (self\<lparr>results := results self @ recs\<rparr>, Inl e)
          \<and> length recs = k \<and> map params recs = take k configs"
    using fit_loop_fails[OF k] by blast
  then show "\<exists>recs. fit caps self X_train y_train
                     = (self\<lparr>results := results self @ recs\<rparr>, Inl e)
                \<and> length recs = k \<and> map params recs = take k configs"
    by (simp add: fit_def kf pg)
qed

lemma toy_fit_failing:
  "fit toy_caps (toy_search toy_grid_failing) toy_X toy_y
     = ((toy_search toy_grid_failing)\<lparr>results := [toy_record 1 (1 / 2) (1 / 10)]\<rparr>,
        Inl ValueError)"
  by code_simp

lemma toy_failing_folds:
  "evaluate_fold toy_caps (toy_search toy_grid_failing) toy_X toy_y [(''C'', 1)] ([1], [0])
     = Inr (1, 1 / 10)"
  "evaluate_fold toy_caps (toy_search toy_grid_failing) toy_X toy_y [(''C'', 1)] ([0], [1])
     = Inr (0, 1 / 10)"
  "evaluate_fold toy_caps (toy_search toy_grid_failing) toy_X toy_y [(''C'', 0)] ([1], [0])
     = Inl ValueError"
  by code_simp+

lemma toy_failing_setup:
  "KFold (cv (toy_search toy_grid_failing)) = Inr 2"
  "ParameterGrid (param_grid (toy_search toy_grid_failing))
     = Inr [[(''C'', 1)], [(''C'', 0)], [(''C'', 2)]]"
  "KFold_split 2 (nrows toy_X) = Inr [([1], [0]), ([0], [1])]"
  by code_simp+

theorem fit_failure_keeps_earlier_records_witness:
  "fit toy_caps (toy_search toy_grid_failing) toy_X toy_y
     = ((toy_search toy_grid_failing)\<lparr>results := [toy_record 1 (1 / 2) (1 / 10)]\<rparr>,
        Inl ValueError)
   \<and> KFold (cv (toy_search toy_grid_failing)) = Inr 2
   \<and> ParameterGrid (param_grid (toy_search toy_grid_failing))
       = Inr [[(''C'', 1)], [(''C'', 0)], [(''C'', 2)]]
   \<and> KFold_split 2 (nrows toy_X) = Inr [([1], [0]), ([0], [1])]
   \<and> fold_measured toy_caps (toy_search toy_grid_failing) toy_X toy_y [(''C'', 1)]
        ([1], [0]) 1 (1 / 10)
   \<and> fold_measured toy_caps (toy_search toy_grid_failing) toy_X toy_y [(''C'', 1)]
        ([0], [1]) 0 (1 / 10)
   \<and> fold_raises toy_caps (toy_search toy_grid_failing) toy_X toy_y [(''C'', 0)]
        ([1], [0]) ValueError
   \<and> (\<exists>recs. fit toy_caps (toy_search toy_grid_failing) toy_X toy_y
          = ((toy_search toy_grid_failing)
               \<lparr>results := results (toy_search toy_grid_failing) @ recs\<rparr>, Inl ValueError)
        \<and> length recs = 1
        \<and> map params recs = take 1 [[(''C'', 1)], [(''C'', 0)], [(''C'', 2)]])
   \<and> (\<exists>recs. (toy_search toy_grid_failing)\<lparr>results := [toy_record 1 (1 / 2) (1 / 10)]\<rparr>
          = (toy_search toy_grid_failing)
              \<lparr>results := results (toy_search toy_grid_failing) @ recs\<rparr>
        \<and> length recs < 3
        \<and> map params recs = take (length recs) [[(''C'', 1)], [(''C'', 0)], [(''C'', 2)]])"
proof -
  let ?s = "toy_search toy_grid_failing"
  let ?configs = "[[(''C'', 1)], [(''C'', 0)], [(''C'', 2 :: int)]]"
  let ?folds = "[([1], [0]), ([0], [1 :: nat])]"
  note m = toy_failing_folds[unfolded evaluate_fold_Inr_iff evaluate_fold_Inl_iff]
  have ok: "\<forall>i<1. \<forall>indices\<in>set ?folds.
              \<exists>a b. fold_measured toy_caps ?s toy_X toy_y (?configs ! i) indices a b"
  proof (intro allI impI ballI)
    fix i :: nat and indices :: "nat list \<times> nat list"
    assume "i < 1" and "indices \<in> set ?folds"
    then have i: "?configs ! i = [(''C'', 1)]"
      and "indices = ([1], [0]) \<or> indices = ([0], [1])" by auto
    then show "\<exists>a b. fold_measured toy_caps ?s toy_X toy_y (?configs ! i) indices a b"
      unfolding i using m(1,2) by blast
  qed
  have okj: "\<forall>j'<0. \<exists>a b. fold_measured toy_caps ?s toy_X toy_y (?configs ! 1)
      (?folds ! j') a b"
    by simp
  have bad: "fold_raises toy_caps ?s toy_X toy_y (?configs ! 1) (?folds ! 0) ValueError"
    using m(3) by simp
  have fwd: "\<exists>recs. fit toy_caps ?s toy_X toy_y
          = (?s\<lparr>results := results ?s @ recs\<rparr>, Inl ValueError)
        \<and> length recs = 1 \<and> map params recs = take 1 ?configs"
    using fit_failure_keeps_earlier_records[where caps = toy_caps and self = ?s
        and X_train = toy_X and y_train = toy_y and kf = 2 and configs = ?configs
        and folds = ?folds and k = 1 and j = 0 and e = ValueError]
      toy_failing_setup ok okj bad
    by simp
  note b = fit_failure_keeps_earlier_records[where caps = toy_caps and self = ?s
        and X_train = toy_X and y_train = toy_y and e = ValueError
        and self' = "?s\<lparr>results := [toy_record 1 (1 / 2) (1 / 10)]\<rparr>",
        THEN conjunct1, rule_format, OF toy_fit_failing]
  have weak: "\<exists>recs. ?s\<lparr>results := [toy_record 1 (1 / 2) (1 / 10)]\<rparr>
          = ?s\<lparr>results := results ?s @ recs\<rparr>
        \<and> (KFold (cv ?s) = Inl ValueError
           \<or> ParameterGrid (param_grid ?s) = Inl ValueError
           \<or> (\<exists>configs. ParameterGrid (param_grid ?s) = Inr configs
                \<and> length recs < length configs
                \<and> map params recs = take (length recs) configs))"
    using b by blast
  have bwd: "\<exists>recs. ?s\<lparr>results := [toy_record 1 (1 / 2) (1 / 10)]\<rparr>
          = ?s\<lparr>results := results ?s @ recs\<rparr>
        \<and> length recs < 3 \<and> map params recs = take (length recs) ?configs"
    using weak toy_failing_setup(1,2) by auto
  show ?thesis
    using toy_fit_failing toy_failing_setup m fwd bwd by (intro conjI)
qed

text \<open>
  The grid \<open>C = 1, 0, 2\<close>: the estimator rejects \<open>C = 0\<close>, the call fails, and the
  record for \<open>C = 1\<close> is in the result list, from which a selection method then
  retrains a model.
\<close>

theorem fit_failure_partial_results_counterexample:
  "snd (fit toy_caps (toy_search toy_grid_failing) toy_X toy_y) = Inl ValueError
   \<and> results (toy_search toy_grid_failing) = []
   \<and> results (fst (fit toy_caps (toy_search toy_grid_failing) toy_X toy_y))
       = [toy_record 1 (1 / 2) (1 / 10)]
   \<and> select_highest_accuracy_model toy_caps
        (fst (fit toy_caps (toy_search toy_grid_failing) toy_X toy_y))
       = Inr ([(''C'', 1)], Some 3)"
  by code_simp

subsection \<open>Repeated searches\<close>

lemma fit_calls_appends:
  assumes "fit_calls caps self runs = (self', Inr ())"
    and "ParameterGrid (param_grid self) = Inr configs"
  shows "\<exists>recs. self' = self\<lparr>results := results self @ recs\<rparr>
           \<and> map params recs = concat (replicate (length runs) configs)"
  using assms
proof (induction runs arbitrary: self)
  case Nil
  then have "self' = self\<lparr>results := results self @ []\<rparr>" by simp
  then show ?case by (intro exI[of _ "[]"]) simp
next
  case (Cons run runs)
  obtain X y where run: "run = (X, y)" by (cases run)
  obtain s1 o1 where f: "fit caps self X y = (s1, o1)" by (cases "fit caps self X y")
  from Cons.prems(1) run f have o1: "o1 = Inr ()" and rest: "fit_calls caps s1 runs = (self', Inr ())"
    by (auto split: sum.splits)
  from fit_success[OF f[unfolded o1]] Cons.prems(2) obtain recs1 where
    s1: "s1 = self\<lparr>results := results self @ recs1\<rparr>" and p1: "map params recs1 = configs"
    by auto
  have "ParameterGrid (param_grid s1) = Inr configs" using Cons.prems(2) s1 by simp
  from Cons.IH[OF rest this] obtain recs where
    s': "self' = s1\<lparr>results := results s1 @ recs\<rparr>"
    and p: "map params recs = concat (replicate (length runs) configs)"
    by blast
  have "self' = self\<lparr>results := results self @ (recs1 @ recs)\<rparr>" using s' s1 by simp
  moreover have "map params (recs1 @ recs) = concat (replicate (length (run # runs)) configs)"
    using p1 p by simp
  ultimately show ?case by blast
qed

lemma length_concat_replicate:
  "length (concat (replicate k xs)) = k * length xs"
  by (induction k) simp_all

lemma length_filter_concat_replicate:
  "length (filter P (concat (replicate k xs))) = k * length (filter P xs)"
  by (induction k) simp_all

text \<open>
  Claim C10. \<open>fit\<close> appends to the result list it finds. After \<open>k\<close> calls that all
  return normally, on an object whose grid has the configurations \<open>configs\<close>, the list
  has grown by \<open>k\<close> times the number of configurations: the appended records carry the
  enumeration \<open>k\<close> times over, so every configuration has at least \<open>k\<close> records. On an
  object that started with the empty list of \<open>__init__\<close> the list has exactly \<open>k\<close> times
  that many records.
\<close>

theorem repeated_fit_accumulates:
  assumes "fit_calls caps self runs = (self', Inr ())"
    and "ParameterGrid (param_grid self) = Inr configs"
  shows "\<exists>recs. self' = self\<lparr>results := results self @ recs\<rparr>
           \<and> map params recs = concat (replicate (length runs) configs)
           \<and> length recs = length runs * length configs
           \<and> (\<forall>c\<in>set configs. length runs \<le> length (filter (\<lambda>r. params r = c) recs))
           \<and> (results self = [] \<longrightarrow>
                length (results self') = length runs * length configs)"
proof -
  from fit_calls_appends[OF assms] obtain recs where
    s': "self' = self\<lparr>results := results self @ recs\<rparr>"
    and p: "map params recs = concat (replicate (length runs) configs)"
    by blast
  have "length (map params recs) = length runs * length configs"
    unfolding p by (rule length_concat_replicate)
  then have len: "length recs = length runs * length configs" by simp
  have cnt: "length runs \<le> length (filter (\<lambda>r. params r = c) recs)" if c: "c \<in> set configs" for c
  proof -
    have "length (filter (\<lambda>r. params r = c) recs)
        = length (filter (\<lambda>q. q = c) (map params recs))"
      by (simp add: filter_map comp_def)
    also have "\<dots> = length runs * length (filter (\<lambda>q. q = c) configs)"
      unfolding p by (rule length_filter_concat_replicate)
    finally have eq: "length (filter (\<lambda>r. params r = c) recs)
        = length runs * length (filter (\<lambda>q. q = c) configs)" .
    have "filter (\<lambda>q. q = c) configs \<noteq> []" using c by (simp add: filter_empty_conv)
    then have "1 \<le> length (filter (\<lambda>q. q = c) configs)" by (simp add: Suc_leI)
    then show ?thesis using eq by simp
  qed
  have "length (results self') = length runs * length configs" if "results self = []"
    using that s' len by simp
  then show ?thesis using s' p len cnt by blast
qed

lemma toy_fit_twice:
  "snd (fit_calls toy_caps (toy_search [(''C'', [1, 2, 3])]) [(toy_X, toy_y), (toy_X, toy_y)])
     = Inr ()"
  by code_simp

theorem repeated_fit_accumulates_witness:
  "fit_calls toy_caps (toy_search [(''C'', [1, 2, 3])]) [(toy_X, toy_y), (toy_X, toy_y)]
     = (fst (fit_calls toy_caps (toy_search [(''C'', [1, 2, 3])])
               [(toy_X, toy_y), (toy_X, toy_y)]), Inr ())
   \<and> ParameterGrid (param_grid (toy_search [(''C'', [1, 2, 3])]))
       = Inr [[(''C'', 1)], [(''C'', 2)], [(''C'', 3)]]
   \<and> results (toy_search [(''C'', [1, 2, 3])]) = []
   \<and> [(''C'', 1)] \<in> set [[(''C'', 1)], [(''C'', 2)], [(''C'', 3 :: int)]]
   \<and> length (results (fst (fit_calls toy_caps (toy_search [(''C'', [1, 2, 3])])
               [(toy_X, toy_y), (toy_X, toy_y)]))) = 6"
proof -
  let ?s = "toy_search [(''C'', [1, 2, 3])]"
  let ?runs = "[(toy_X, toy_y), (toy_X, toy_y)]"
  have run: "fit_calls toy_caps ?s ?runs = (fst (fit_calls toy_caps ?s ?runs), Inr ())"
    using toy_fit_twice by (metis prod.collapse)
  have pg: "ParameterGrid (param_grid ?s) = Inr [[(''C'', 1)], [(''C'', 2)], [(''C'', 3)]]"
    by (simp add: toy_search_def init_def ParameterGrid_def)
  have emp: "results ?s = []" by (simp add: toy_search_def init_def)
  from repeated_fit_accumulates[OF run pg] emp
  have "length (results (fst (fit_calls toy_caps ?s ?runs))) = 6" by auto
  then show ?thesis using run pg emp by simp
qed

section \<open>The selection policies\<close>

subsection \<open>Highest accuracy\<close>

text \<open>
  Claim C4. On a non-empty result list, \<open>select_highest_accuracy_model\<close> retrains with the
  configuration of a record whose mean accuracy is maximal, and among several records at
  the maximum it takes the first in the order of the list: every record before the chosen
  one has a strictly smaller accuracy.
\<close>

theorem select_highest_accuracy_model_first_maximum:
  assumes "results self \<noteq> []"
  shows "\<exists>i<length (results self).
           highest_accuracy_best_params self = Inr (params (results self ! i))
         \<and> select_highest_accuracy_model caps self
             = retrain_model caps self (params (results self ! i))
         \<and> (\<forall>j<length (results self).
               accuracy (results self ! j) \<le> accuracy (results self ! i))
         \<and> (\<forall>j<i. accuracy (results self ! j) < accuracy (results self ! i))"
proof -
  from py_max_first[OF assms, of accuracy] obtain i where
    i: "i < length (results self)" "py_max accuracy (results self) = Inr (results self ! i)"
    and rest: "\<forall>j<length (results self). accuracy (results self ! j) \<le> accuracy (results self ! i)"
      "\<forall>j<i. accuracy (results self ! j) < accuracy (results self ! i)"
    by blast
  have "highest_accuracy_best_params self = Inr (params (results self ! i))"
    using i(2) by (simp add: highest_accuracy_best_params_def bind_result_simps)
  moreover from this have "select_highest_accuracy_model caps self
      = retrain_model caps self (params (results self ! i))"
    by (simp add: select_highest_accuracy_model_def bind_result_simps)
  ultimately show ?thesis using i(1) rest by blast
qed

lemma highest_accuracy_toy_results_a:
  "highest_accuracy_best_params (toy_scored toy_results_a) = Inr [(''C'', 2)]"
  by (simp add: highest_accuracy_best_params_def toy_scored_def toy_results_a_def
      toy_record_def py_max_def bind_result_def)

theorem select_highest_accuracy_model_first_maximum_witness:
  "results (toy_scored toy_results_a) \<noteq> []
   \<and> highest_accuracy_best_params (toy_scored toy_results_a) = Inr [(''C'', 2)]
   \<and> (\<exists>i<length (results (toy_scored toy_results_a)).
         highest_accuracy_best_params (toy_scored toy_results_a)
           = Inr (params (results (toy_scored toy_results_a) ! i))
       \<and> (\<forall>j<i. accuracy (results (toy_scored toy_results_a) ! j)
                  < accuracy (results (toy_scored toy_results_a) ! i)))"
proof -
  have ne: "results (toy_scored toy_results_a) \<noteq> []"
    by (simp add: toy_scored_def toy_results_a_def)
  from select_highest_accuracy_model_first_maximum[OF ne, of toy_caps] ne
    highest_accuracy_toy_results_a
  show ?thesis by blast
qed

subsection \<open>Least bias\<close>

text \<open>
  Claim C5. On a non-empty result list, \<open>select_least_biased_model\<close> retrains with the
  configuration of a record whose mean bias is minimal (the first such record). With
  exactly two records of bias 0.05 and 0.2, in either order, it selects the configuration
  of the record with bias 0.05.
\<close>

theorem select_least_biased_model_minimum:
  "(results self \<noteq> [] \<longrightarrow>
      (\<exists>i<length (results self).
           least_biased_best_params self = Inr (params (results self ! i))
         \<and> select_least_biased_model caps self
             = retrain_model caps self (params (results self ! i))
         \<and> (\<forall>j<length (results self). bias (results self ! i) \<le> bias (results self ! j))
         \<and> (\<forall>j<i. bias (results self ! i) < bias (results self ! j))))
   \<and> least_biased_best_params
        (self\<lparr>results := [\<lparr>params = c1, accuracy = a1, bias = 0.05\<rparr>,
                           \<lparr>params = c2, accuracy = a2, bias = 0.2\<rparr>]\<rparr>) = Inr c1
   \<and> least_biased_best_params
        (self\<lparr>results := [\<lparr>params = c2, accuracy = a2, bias = 0.2\<rparr>,
                           \<lparr>params = c1, accuracy = a1, bias = 0.05\<rparr>]\<rparr>) = Inr c1"
proof (intro conjI impI)
  assume ne: "results self \<noteq> []"
  from py_min_first[OF ne, of bias] obtain i where
    i: "i < length (results self)" "py_min bias (results self) = Inr (results self ! i)"
    and rest: "\<forall>j<length (results self). bias (results self ! i) \<le> bias (results self ! j)"
      "\<forall>j<i. bias (results self ! i) < bias (results self ! j)"
    by blast
  have "least_biased_best_params self = Inr (params (results self ! i))"
    using i(2) by (simp add: least_biased_best_params_def bind_result_simps)
  moreover from this have "select_least_biased_model caps self
      = retrain_model caps self (params (results self ! i))"
    by (simp add: select_least_biased_model_def bind_result_simps)
  ultimately show "\<exists>i<length (results self).
           least_biased_best_params self = Inr (params (results self ! i))
         \<and> select_least_biased_model caps self
             = retrain_model caps self (params (results self ! i))
         \<and> (\<forall>j<length (results self). bias (results self ! i) \<le> bias (results self ! j))
         \<and> (\<forall>j<i. bias (results self ! i) < bias (results self ! j))"
    using i(1) rest by blast
next
  show "least_biased_best_params
        (self\<lparr>results := [\<lparr>params = c1, accuracy = a1, bias = 0.05\<rparr>,
                           \<lparr>params = c2, accuracy = a2, bias = 0.2\<rparr>]\<rparr>) = Inr c1"
    by (simp add: least_biased_best_params_def py_min_def bind_result_def)
next
  show "least_biased_best_params
        (self\<lparr>results := [\<lparr>params = c2, accuracy = a2, bias = 0.2\<rparr>,
                           \<lparr>params = c1, accuracy = a1, bias = 0.05\<rparr>]\<rparr>) = Inr c1"
    by (simp add: least_biased_best_params_def py_min_def bind_result_def)
qed

theorem select_least_biased_model_minimum_witness:
  "results (toy_scored toy_results_a) \<noteq> []
   \<and> (\<exists>i<length (results (toy_scored toy_results_a)).
         least_biased_best_params (toy_scored toy_results_a)
           = Inr (params (results (toy_scored toy_results_a) ! i))
       \<and> (\<forall>j<length (results (toy_scored toy_results_a)).
             bias (results (toy_scored toy_results_a) ! i)
               \<le> bias (results (toy_scored toy_results_a) ! j)))
   \<and> least_biased_best_params (toy_scored toy_results_a) = Inr [(''C'', 3)]"
proof -
  have ne: "results (toy_scored toy_results_a) \<noteq> []"
    by (simp add: toy_scored_def toy_results_a_def)
  have ev: "least_biased_best_params (toy_scored toy_results_a) = Inr [(''C'', 3)]"
    by (simp add: least_biased_best_params_def toy_scored_def toy_results_a_def
      toy_record_def py_min_def bind_result_def)
  from select_least_biased_model_minimum[of "toy_scored toy_results_a" toy_caps] ne ev
  show ?thesis by blast
qed

subsection \<open>Balanced selection\<close>

lemma top_accurate_models_all:
  "int (length (results self)) \<le> threshold \<Longrightarrow>
   top_accurate_models self threshold = sorted_reverse accuracy (results self)"
  by (simp add: top_accurate_models_def slice_to_all length_sorted_reverse)

lemma balanced_best_params_minimum:
  assumes "results self \<noteq> []" "int (length (results self)) \<le> threshold"
  shows "\<exists>r\<in>set (results self). balanced_best_params self threshold = Inr (params r)
           \<and> (\<forall>x\<in>set (results self). bias r \<le> bias x)"
proof -
  let ?L = "sorted_reverse accuracy (results self)"
  have L: "top_accurate_models self threshold = ?L"
    using assms(2) by (rule top_accurate_models_all)
  have "?L \<noteq> []" using assms(1) length_sorted_reverse[of accuracy "results self"] by auto
  from py_min_minimum[OF this, of bias] obtain m where
    m: "m \<in> set ?L" "py_min bias ?L = Inr m" "\<forall>x\<in>set ?L. bias m \<le> bias x"
    by blast
  have "balanced_best_params self threshold = Inr (params m)"
    using m(2) L by (simp add: balanced_best_params_def bind_result_simps)
  then show ?thesis using m(1,3) by (auto simp: set_sorted_reverse)
qed

lemma least_biased_best_params_minimum:
  assumes "results self \<noteq> []"
  shows "\<exists>r\<in>set (results self). least_biased_best_params self = Inr (params r)
           \<and> (\<forall>x\<in>set (results self). bias r \<le> bias x)"
proof -
  from py_min_minimum[OF assms, of bias] obtain m where
    m: "m \<in> set (results self)" "py_min bias (results self) = Inr m"
       "\<forall>x\<in>set (results self). bias m \<le> bias x"
    by blast
  have "least_biased_best_params self = Inr (params m)"
    using m(2) by (simp add: least_biased_best_params_def bind_result_simps)
  then show ?thesis using m(1,3) by blast
qed

lemma balanced_best_params_negative:
  assumes "threshold < 0"
  shows "(int (length (results self)) + threshold \<le> 0 \<longrightarrow>
            balanced_best_params self threshold = Inl ValueError)
       \<and> (0 < int (length (results self)) + threshold \<longrightarrow>
            (\<exists>r\<in>set (results self). balanced_best_params self threshold = Inr (params r)))"
proof (intro conjI impI)
  assume "int (length (results self)) + threshold \<le> 0"
  then have "length (results self) - nat (- threshold) = 0" by simp
  then have "top_accurate_models self threshold = []"
    using assms by (simp add: top_accurate_models_def slice_to_def length_sorted_reverse)
  then show "balanced_best_params self threshold = Inl ValueError"
    by (simp add: balanced_best_params_def py_min_def bind_result_def)
next
  assume pos: "0 < int (length (results self)) + threshold"
  let ?L = "take (length (results self) - nat (- threshold))
              (sorted_reverse accuracy (results self))"
  have L: "top_accurate_models self threshold = ?L"
    using assms by (simp add: top_accurate_models_def slice_to_def length_sorted_reverse)
  have "nat (- threshold) < length (results self)" using pos assms by (simp add: nat_less_iff)
  then have "0 < length (results self) - nat (- threshold)" by simp
  then have "length ?L \<noteq> 0" by (simp add: length_sorted_reverse)
  then have "?L \<noteq> []" by (metis list.size(3))
  from py_min_minimum[OF this, of bias] obtain m where
    m: "m \<in> set ?L" "py_min bias ?L = Inr m" by blast
  have "m \<in> set (sorted_reverse accuracy (results self))"
    using m(1) by (rule in_set_takeD)
  then have "m \<in> set (results self)" by (simp add: set_sorted_reverse)
  moreover have "balanced_best_params self threshold = Inr (params m)"
    using m(2) L by (simp add: balanced_best_params_def bind_result_simps)
  ultimately show "\<exists>r\<in>set (results self). balanced_best_params self threshold = Inr (params r)"
    by blast
qed

text \<open>
  Claim C2, as the code has it. On a non-empty result list, threshold 1 selects the
  configuration that the highest-accuracy policy selects, and so returns the same retrained
  model. With the threshold equal to the number of records, the balanced policy and the
  least-bias policy both select a record of minimal mean bias; they select the same
  configuration whenever all records of minimal bias carry one configuration (in
  particular when the minimum is attained once). With a tie in bias they can differ: the
  balanced policy takes the first minimum in the order of descending accuracy, the
  least-bias policy the first in the order of the list.
\<close>

theorem balanced_threshold_one_and_all:
  assumes "results self \<noteq> []"
  shows "balanced_best_params self 1 = highest_accuracy_best_params self
       \<and> select_balanced_model caps self 1 = select_highest_accuracy_model caps self
       \<and> (\<exists>r\<in>set (results self). \<exists>r'\<in>set (results self).
             balanced_best_params self (int (length (results self))) = Inr (params r)
           \<and> least_biased_best_params self = Inr (params r')
           \<and> bias r = bias r'
           \<and> (\<forall>x\<in>set (results self). bias r \<le> bias x))
       \<and> ((\<forall>x\<in>set (results self). \<forall>y\<in>set (results self).
              (\<forall>z\<in>set (results self). bias x \<le> bias z) \<and> bias y = bias x
                \<longrightarrow> params y = params x)
           \<longrightarrow> balanced_best_params self (int (length (results self)))
                 = least_biased_best_params self
               \<and> select_balanced_model caps self (int (length (results self)))
                 = select_least_biased_model caps self)"
proof -
  from assms obtain b rest where rs: "results self = b # rest"
    by (cases "results self") auto
  have one: "balanced_best_params self 1 = highest_accuracy_best_params self"
    by (simp add: balanced_best_params_def highest_accuracy_best_params_def
        top_accurate_models_one[OF rs] rs py_min_def py_max_def)
  then have one': "select_balanced_model caps self 1 = select_highest_accuracy_model caps self"
    by (simp add: select_balanced_model_def select_highest_accuracy_model_def)
  let ?n = "int (length (results self))"
  from balanced_best_params_minimum[OF assms, of ?n] obtain r where
    r: "r \<in> set (results self)" "balanced_best_params self ?n = Inr (params r)"
       "\<forall>x\<in>set (results self). bias r \<le> bias x"
    by auto
  from least_biased_best_params_minimum[OF assms] obtain r' where
    r': "r' \<in> set (results self)" "least_biased_best_params self = Inr (params r')"
       "\<forall>x\<in>set (results self). bias r' \<le> bias x"
    by auto
  have eq: "bias r = bias r'" using r(1,3) r'(1,3) by (meson order.antisym)
  have all: "\<exists>r\<in>set (results self). \<exists>r'\<in>set (results self).
             balanced_best_params self ?n = Inr (params r)
           \<and> least_biased_best_params self = Inr (params r')
           \<and> bias r = bias r'
           \<and> (\<forall>x\<in>set (results self). bias r \<le> bias x)"
    using r r' eq by blast
  have uniq: "balanced_best_params self ?n = least_biased_best_params self
               \<and> select_balanced_model caps self ?n = select_least_biased_model caps self"
    if u: "\<forall>x\<in>set (results self). \<forall>y\<in>set (results self).
              (\<forall>z\<in>set (results self). bias x \<le> bias z) \<and> bias y = bias x
                \<longrightarrow> params y = params x"
  proof -
    have "params r' = params r" using u r(1,3) r'(1) eq by metis
    then have "balanced_best_params self ?n = least_biased_best_params self"
      using r(2) r'(2) by simp
    then show ?thesis
      by (simp add: select_balanced_model_def select_least_biased_model_def)
  qed
  show ?thesis using one one' all uniq by blast
qed

lemma toy_results_a_unique_minimum:
  "\<forall>x\<in>set (results (toy_scored toy_results_a)). \<forall>y\<in>set (results (toy_scored toy_results_a)).
     (\<forall>z\<in>set (results (toy_scored toy_results_a)). bias x \<le> bias z) \<and> bias y = bias x
       \<longrightarrow> params y = params x"
  by (simp add: toy_scored_def toy_results_a_def toy_record_def)

theorem balanced_threshold_one_and_all_witness:
  "results (toy_scored toy_results_a) \<noteq> []
   \<and> balanced_best_params (toy_scored toy_results_a) 1
       = highest_accuracy_best_params (toy_scored toy_results_a)
   \<and> balanced_best_params (toy_scored toy_results_a)
         (int (length (results (toy_scored toy_results_a))))
       = least_biased_best_params (toy_scored toy_results_a)"
proof -
  have ne: "results (toy_scored toy_results_a) \<noteq> []"
    by (simp add: toy_scored_def toy_results_a_def)
  from balanced_threshold_one_and_all[OF ne, of toy_caps] ne toy_results_a_unique_minimum
  show ?thesis by blast
qed

text \<open>
  Two records of equal bias: with the threshold at the number of records the balanced
  policy selects \<open>C = 2\<close> (the more accurate record comes first after sorting), the
  least-bias policy \<open>C = 1\<close>.
\<close>

theorem balanced_threshold_all_counterexample:
  "results (toy_scored toy_results_b) \<noteq> []
   \<and> int (length (results (toy_scored toy_results_b))) = 2
   \<and> balanced_best_params (toy_scored toy_results_b) 2 = Inr [(''C'', 2)]
   \<and> least_biased_best_params (toy_scored toy_results_b) = Inr [(''C'', 1)]"
  by (simp add: balanced_best_params_def least_biased_best_params_def top_accurate_models_def
      sorted_reverse_def slice_to_def py_min_def bind_result_def toy_scored_def
      toy_results_b_def toy_record_def)

lemma sorted_reverse_descending:
  "sorted (rev (map key (sorted_reverse key xs)))"
  by (simp add: sorted_reverse_def rev_map)

lemma sorted_reverse_stable:
  "filter (\<lambda>x. key x = a) (sorted_reverse key xs) = filter (\<lambda>x. key x = a) xs"
  by (simp add: sorted_reverse_def rev_filter[symmetric] sort_key_stable)

lemma top_accurate_models_take:
  "top_accurate_models self threshold
     = take (if threshold < 0 then nat (int (length (results self)) + threshold)
             else min (nat threshold) (length (results self)))
         (sorted_reverse accuracy (results self))"
proof (cases "threshold < 0")
  case True
  then have "length (results self) - nat (- threshold)
      = nat (int (length (results self)) + threshold)" by simp
  then show ?thesis
    using True by (simp add: top_accurate_models_def slice_to_def length_sorted_reverse)
next
  case False
  then show ?thesis
    by (simp add: top_accurate_models_def slice_to_def length_sorted_reverse min_def)
qed

lemma balanced_first_minimum:
  assumes t: "top_accurate_models self threshold = take k L" and k: "0 < k" "k \<le> length L"
  shows "\<exists>i<k. balanced_best_params self threshold = Inr (params (L ! i))
          \<and> select_balanced_model caps self threshold = retrain_model caps self (params (L ! i))
          \<and> (\<forall>j<k. bias (L ! i) \<le> bias (L ! j))
          \<and> (\<forall>j<i. bias (L ! i) < bias (L ! j))"
proof -
  let ?T = "take k L"
  have len: "length ?T = k" using k by simp
  then have "?T \<noteq> []" using k(1) by (metis length_0_conv less_numeral_extra(3))
  from py_min_first[OF this, of bias] obtain i where
    i: "i < length ?T" "py_min bias ?T = Inr (?T ! i)"
       "\<forall>j<length ?T. bias (?T ! i) \<le> bias (?T ! j)"
       "\<forall>j<i. bias (?T ! i) < bias (?T ! j)"
    by blast
  have ik: "i < k" using i(1) len by simp
  have nth: "\<forall>j<k. ?T ! j = L ! j" by simp
  have b: "balanced_best_params self threshold = Inr (params (L ! i))"
    using i(2) ik by (simp add: balanced_best_params_def t bind_result_simps)
  then have s: "select_balanced_model caps self threshold
      = retrain_model caps self (params (L ! i))"
    by (simp add: select_balanced_model_def bind_result_simps)
  have m: "\<forall>j<k. bias (L ! i) \<le> bias (L ! j)"
    using i(3) ik len by simp
  have f: "\<forall>j<i. bias (L ! i) < bias (L ! j)"
    using i(4) ik by simp
  show ?thesis using ik b s m f by blast
qed

lemma balanced_empty_slice:
  assumes "top_accurate_models self threshold = take 0 L"
  shows "balanced_best_params self threshold = Inl ValueError
       \<and> select_balanced_model caps self threshold = Inl ValueError"
  using assms
  by (simp add: balanced_best_params_def select_balanced_model_def py_min_def bind_result_def)

text \<open>
  Claim C3, as the code has it. The threshold is not checked. The records are ranked by
  descending accuracy, records of equal accuracy keeping their order, and the slice holds
  the first \<open>k\<close> records of the ranking: \<open>k\<close> is the threshold capped at the number
  \<open>n\<close> of records when the threshold is not negative, and \<open>n + threshold\<close>, or 0 when
  that is negative, otherwise. With \<open>k = 0\<close> (threshold 0 in particular) \<open>min\<close> raises
  \<open>ValueError\<close> before \<open>_retrain_model\<close> is reached: the outcome is the same for every
  estimator, also for one whose every call would fail. With \<open>k > 0\<close> the call selects
  the first record of minimal bias among the first \<open>k\<close> of the ranking and goes on to
  retrain. So a threshold above the number of records is not an error: the call behaves
  as with the threshold at the number of records.
\<close>

theorem balanced_threshold_unchecked:
  "balanced_best_params self 0 = Inl ValueError
   \<and> select_balanced_model caps self 0 = Inl ValueError
   \<and> (int (length (results self)) < threshold \<longrightarrow>
        balanced_best_params self threshold
          = balanced_best_params self (int (length (results self)))
      \<and> select_balanced_model caps self threshold
          = select_balanced_model caps self (int (length (results self)))
      \<and> (results self \<noteq> [] \<longrightarrow>
           (\<exists>r\<in>set (results self). balanced_best_params self threshold = Inr (params r)
              \<and> select_balanced_model caps self threshold = retrain_model caps self (params r))))
   \<and> (threshold < 0 \<longrightarrow>
        (int (length (results self)) + threshold \<le> 0 \<longrightarrow>
            balanced_best_params self threshold = Inl ValueError)
      \<and> (0 < int (length (results self)) + threshold \<longrightarrow>
            (\<exists>r\<in>set (results self). balanced_best_params self threshold = Inr (params r))))
   \<and> sorted (rev (map accuracy (sorted_reverse accuracy (results self))))
   \<and> (\<forall>a. filter (\<lambda>r. accuracy r = a) (sorted_reverse accuracy (results self))
            = filter (\<lambda>r. accuracy r = a) (results self))
   \<and> (k = (if threshold < 0 then nat (int (length (results self)) + threshold)
            else min (nat threshold) (length (results self))) \<longrightarrow>
        top_accurate_models self threshold
          = take k (sorted_reverse accuracy (results self))
      \<and> (k = 0 \<longrightarrow>
            balanced_best_params self threshold = Inl ValueError
          \<and> select_balanced_model caps self threshold = Inl ValueError)
      \<and> (0 < k \<longrightarrow>
            (\<exists>i<k. balanced_best_params self threshold
                      = Inr (params (sorted_reverse accuracy (results self) ! i))
                \<and> select_balanced_model caps self threshold
                      = retrain_model caps self
                          (params (sorted_reverse accuracy (results self) ! i))
                \<and> (\<forall>j<k. bias (sorted_reverse accuracy (results self) ! i)
                            \<le> bias (sorted_reverse accuracy (results self) ! j))
                \<and> (\<forall>j<i. bias (sorted_reverse accuracy (results self) ! i)
                            < bias (sorted_reverse accuracy (results self) ! j)))))"
proof -
  have zero: "balanced_best_params self 0 = Inl ValueError"
    by (simp add: balanced_best_params_def top_accurate_models_def slice_to_def py_min_def
        bind_result_def)
  then have zero': "select_balanced_model caps self 0 = Inl ValueError"
    by (simp add: select_balanced_model_def bind_result_def)
  have above: "balanced_best_params self threshold
          = balanced_best_params self (int (length (results self)))
      \<and> select_balanced_model caps self threshold
          = select_balanced_model caps self (int (length (results self)))
      \<and> (results self \<noteq> [] \<longrightarrow>
           (\<exists>r\<in>set (results self). balanced_best_params self threshold = Inr (params r)
              \<and> select_balanced_model caps self threshold = retrain_model caps self (params r)))"
    if lt: "int (length (results self)) < threshold"
  proof -
    have "top_accurate_models self threshold
        = top_accurate_models self (int (length (results self)))"
      using lt by (simp add: top_accurate_models_all)
    then have eq: "balanced_best_params self threshold
          = balanced_best_params self (int (length (results self)))"
      by (simp add: balanced_best_params_def)
    then have eq': "select_balanced_model caps self threshold
          = select_balanced_model caps self (int (length (results self)))"
      by (simp add: select_balanced_model_def)
    have "\<exists>r\<in>set (results self). balanced_best_params self threshold = Inr (params r)
              \<and> select_balanced_model caps self threshold = retrain_model caps self (params r)"
      if ne: "results self \<noteq> []"
    proof -
      from balanced_best_params_minimum[OF ne, of threshold] lt obtain r where
        "r \<in> set (results self)" "balanced_best_params self threshold = Inr (params r)"
        by auto
      then show ?thesis by (auto simp: select_balanced_model_def bind_result_simps)
    qed
    then show ?thesis using eq eq' by blast
  qed
  let ?L = "sorted_reverse accuracy (results self)"
  have ranked: "sorted (rev (map accuracy ?L))"
    "\<forall>a. filter (\<lambda>r. accuracy r = a) ?L = filter (\<lambda>r. accuracy r = a) (results self)"
    by (simp_all add: sorted_reverse_descending sorted_reverse_stable)
  have exact: "top_accurate_models self threshold = take k ?L
      \<and> (k = 0 \<longrightarrow>
            balanced_best_params self threshold = Inl ValueError
          \<and> select_balanced_model caps self threshold = Inl ValueError)
      \<and> (0 < k \<longrightarrow>
            (\<exists>i<k. balanced_best_params self threshold = Inr (params (?L ! i))
                \<and> select_balanced_model caps self threshold
                      = retrain_model caps self (params (?L ! i))
                \<and> (\<forall>j<k. bias (?L ! i) \<le> bias (?L ! j))
                \<and> (\<forall>j<i. bias (?L ! i) < bias (?L ! j))))"
    if kdef: "k = (if threshold < 0 then nat (int (length (results self)) + threshold)
            else min (nat threshold) (length (results self)))"
  proof -
    have t: "top_accurate_models self threshold = take k ?L"
      unfolding kdef by (rule top_accurate_models_take)
    have kl: "k \<le> length ?L"
      unfolding kdef by (cases "threshold < 0") (simp_all add: length_sorted_reverse nat_le_iff)
    have e: "balanced_best_params self threshold = Inl ValueError
          \<and> select_balanced_model caps self threshold = Inl ValueError" if "k = 0"
      using balanced_empty_slice[of self threshold ?L caps] t that by simp
    have p: "\<exists>i<k. balanced_best_params self threshold = Inr (params (?L ! i))
                \<and> select_balanced_model caps self threshold
                      = retrain_model caps self (params (?L ! i))
                \<and> (\<forall>j<k. bias (?L ! i) \<le> bias (?L ! j))
                \<and> (\<forall>j<i. bias (?L ! i) < bias (?L ! j))" if "0 < k"
      using balanced_first_minimum[OF t that kl] .
    show ?thesis using t e p by blast
  qed
  show ?thesis
    apply (intro conjI)
    using zero apply assumption
    using zero' apply assumption
    using above apply blast
    using balanced_best_params_negative[of threshold self] apply blast
    using ranked(1) apply assumption
    using ranked(2) apply assumption
    apply (rule impI)
    apply (rule exact)
    apply assumption
    done
qed

lemma toy_negative_thresholds:
  "balanced_best_params (toy_scored toy_results_b) (- 1) = Inr [(''C'', 2)]"
  "balanced_best_params (toy_scored toy_results_b) (- 2) = Inl ValueError"
  by code_simp+

lemma toy_ranking_a:
  "sorted_reverse accuracy (results (toy_scored toy_results_a))
     = [toy_record 2 (9 / 10) (1 / 5), toy_record 3 (9 / 10) (1 / 20),
        toy_record 1 (1 / 2) (1 / 10)]"
  by code_simp

theorem balanced_threshold_unchecked_witness:
  "int (length (results (toy_scored toy_results_b))) < 3
   \<and> results (toy_scored toy_results_b) \<noteq> []
   \<and> select_balanced_model toy_caps (toy_scored toy_results_b) 3
       = select_balanced_model toy_caps (toy_scored toy_results_b)
           (int (length (results (toy_scored toy_results_b))))
   \<and> (\<exists>r\<in>set (results (toy_scored toy_results_b)).
         balanced_best_params (toy_scored toy_results_b) 3 = Inr (params r))
   \<and> (- 1 :: int) < 0
   \<and> 0 < int (length (results (toy_scored toy_results_b))) + (- 1)
   \<and> (\<exists>r\<in>set (results (toy_scored toy_results_b)).
         balanced_best_params (toy_scored toy_results_b) (- 1) = Inr (params r))
   \<and> int (length (results (toy_scored toy_results_b))) + (- 2) \<le> 0
   \<and> balanced_best_params (toy_scored toy_results_b) (- 2) = Inl ValueError
   \<and> select_balanced_model toy_caps (toy_scored toy_results_b) (- 2) = Inl ValueError
   \<and> length (results (toy_scored toy_results_a)) = 3
   \<and> top_accurate_models (toy_scored toy_results_a) (- 2)
       = [toy_record 2 (9 / 10) (1 / 5)]
   \<and> balanced_best_params (toy_scored toy_results_a) (- 2) = Inr [(''C'', 2)]
   \<and> balanced_best_params (toy_scored toy_results_a) 3 = Inr [(''C'', 3)]"
proof -
  have lt: "int (length (results (toy_scored toy_results_b))) < 3"
    and ne: "results (toy_scored toy_results_b) \<noteq> []"
    and len: "int (length (results (toy_scored toy_results_b))) = 2"
    and lenb: "length (results (toy_scored toy_results_b)) = 2"
    and lena: "length (results (toy_scored toy_results_a)) = 3"
    by (simp_all add: toy_scored_def toy_results_b_def toy_results_a_def)
  have above: "select_balanced_model toy_caps (toy_scored toy_results_b) 3
       = select_balanced_model toy_caps (toy_scored toy_results_b)
           (int (length (results (toy_scored toy_results_b))))
     \<and> (\<exists>r\<in>set (results (toy_scored toy_results_b)).
         balanced_best_params (toy_scored toy_results_b) 3 = Inr (params r))"
    using balanced_threshold_unchecked[of "toy_scored toy_results_b" toy_caps 3 0,
        THEN conjunct2, THEN conjunct2, THEN conjunct1] lt ne
    by blast
  have one: "\<exists>r\<in>set (results (toy_scored toy_results_b)).
         balanced_best_params (toy_scored toy_results_b) (- 1) = Inr (params r)"
    using balanced_threshold_unchecked[of "toy_scored toy_results_b" toy_caps "- 1" 0,
        THEN conjunct2, THEN conjunct2, THEN conjunct2, THEN conjunct1] len
    by simp
  have two: "balanced_best_params (toy_scored toy_results_b) (- 2) = Inl ValueError
      \<and> select_balanced_model toy_caps (toy_scored toy_results_b) (- 2) = Inl ValueError"
    using balanced_threshold_unchecked[of "toy_scored toy_results_b" toy_caps "- 2" 0,
        THEN conjunct2, THEN conjunct2, THEN conjunct2, THEN conjunct2, THEN conjunct2,
        THEN conjunct2] lenb
    by simp
  note a = balanced_threshold_unchecked[of "toy_scored toy_results_a" toy_caps "- 2" 1,
        THEN conjunct2, THEN conjunct2, THEN conjunct2, THEN conjunct2, THEN conjunct2,
        THEN conjunct2]
  have k1: "(1 :: nat) = (if (- 2 :: int) < 0
        then nat (int (length (results (toy_scored toy_results_a))) + (- 2))
        else min (nat (- 2)) (length (results (toy_scored toy_results_a))))"
    using lena by simp
  note a' = a[THEN mp, OF k1]
  have sl: "top_accurate_models (toy_scored toy_results_a) (- 2)
         = take 1 (sorted_reverse accuracy (results (toy_scored toy_results_a)))"
    using a' by (rule conjunct1)
  have "\<exists>i<1. balanced_best_params (toy_scored toy_results_a) (- 2)
               = Inr (params (sorted_reverse accuracy (results (toy_scored toy_results_a)) ! i))
          \<and> select_balanced_model toy_caps (toy_scored toy_results_a) (- 2)
               = retrain_model toy_caps (toy_scored toy_results_a)
                   (params (sorted_reverse accuracy (results (toy_scored toy_results_a)) ! i))
          \<and> (\<forall>j<1. bias (sorted_reverse accuracy (results (toy_scored toy_results_a)) ! i)
                      \<le> bias (sorted_reverse accuracy (results (toy_scored toy_results_a)) ! j))
          \<and> (\<forall>j<i. bias (sorted_reverse accuracy (results (toy_scored toy_results_a)) ! i)
                      < bias (sorted_reverse accuracy (results (toy_scored toy_results_a)) ! j))"
    using a'[THEN conjunct2, THEN conjunct2, THEN mp] by simp
  then obtain i0 where "i0 < (1 :: nat)"
    "balanced_best_params (toy_scored toy_results_a) (- 2)
       = Inr (params (sorted_reverse accuracy (results (toy_scored toy_results_a)) ! i0))"
    by blast
  then have ex: "balanced_best_params (toy_scored toy_results_a) (- 2)
       = Inr (params (sorted_reverse accuracy (results (toy_scored toy_results_a)) ! 0))"
    by simp
  have three: "top_accurate_models (toy_scored toy_results_a) (- 2)
       = [toy_record 2 (9 / 10) (1 / 5)]"
    using sl by (simp add: toy_ranking_a)
  have four: "balanced_best_params (toy_scored toy_results_a) (- 2) = Inr [(''C'', 2)]"
    using ex by (simp add: toy_ranking_a toy_record_def)
  note b = balanced_threshold_unchecked[of "toy_scored toy_results_a" toy_caps 3 3,
        THEN conjunct2, THEN conjunct2, THEN conjunct2, THEN conjunct2, THEN conjunct2,
        THEN conjunct2]
  have k3: "(3 :: nat) = (if (3 :: int) < 0
        then nat (int (length (results (toy_scored toy_results_a))) + 3)
        else min (nat 3) (length (results (toy_scored toy_results_a))))"
    using lena by simp
  have "\<exists>i<3. balanced_best_params (toy_scored toy_results_a) 3
               = Inr (params (sorted_reverse accuracy (results (toy_scored toy_results_a)) ! i))
          \<and> select_balanced_model toy_caps (toy_scored toy_results_a) 3
               = retrain_model toy_caps (toy_scored toy_results_a)
                   (params (sorted_reverse accuracy (results (toy_scored toy_results_a)) ! i))
          \<and> (\<forall>j<3. bias (sorted_reverse accuracy (results (toy_scored toy_results_a)) ! i)
                      \<le> bias (sorted_reverse accuracy (results (toy_scored toy_results_a)) ! j))
          \<and> (\<forall>j<i. bias (sorted_reverse accuracy (results (toy_scored toy_results_a)) ! i)
                      < bias (sorted_reverse accuracy (results (toy_scored toy_results_a)) ! j))"
    using b[THEN mp, OF k3, THEN conjunct2, THEN conjunct2, THEN mp] by simp
  then obtain i where i: "i < 3"
    "balanced_best_params (toy_scored toy_results_a) 3
       = Inr (params (sorted_reverse accuracy (results (toy_scored toy_results_a)) ! i))"
    "\<forall>j<3. bias (sorted_reverse accuracy (results (toy_scored toy_results_a)) ! i)
              \<le> bias (sorted_reverse accuracy (results (toy_scored toy_results_a)) ! j)"
    by blast
  from i(3) have "bias (sorted_reverse accuracy (results (toy_scored toy_results_a)) ! i)
      \<le> bias (sorted_reverse accuracy (results (toy_scored toy_results_a)) ! 1)"
    by simp
  moreover have "i = 0 \<or> i = 1 \<or> i = 2" using i(1) by auto
  ultimately have "i = 1"
    by (auto simp: toy_ranking_a toy_record_def)
  then have five: "balanced_best_params (toy_scored toy_results_a) 3 = Inr [(''C'', 3)]"
    using i(2) by (simp add: toy_ranking_a toy_record_def)
  show ?thesis using lt ne len above one two lena three four five by simp
qed

text \<open>
  With two records and threshold 3 the call returns a model, fitted on the three rows of
  the stored frame.
\<close>

theorem balanced_threshold_above_counterexample:
  "int (length (results (toy_scored toy_results_b))) < 3
   \<and> select_balanced_model toy_caps (toy_scored toy_results_b) 3 = Inr ([(''C'', 2)], Some 3)"
  by code_simp

subsection \<open>Retraining\<close>

lemma drop_columns_single:
  assumes "drop_columns f [c] = Inr g"
  shows "nrows g = nrows f \<and> cols g = filter (\<lambda>(k, vs). k \<noteq> c) (cols f)
       \<and> c \<notin> fst ` set (cols g)"
proof -
  from assms have g: "g = f\<lparr>cols := filter (\<lambda>(k, vs). k \<notin> set [c]) (cols f)\<rparr>"
    by (simp add: drop_columns_def split: if_splits)
  then have "nrows g = nrows f" "cols g = filter (\<lambda>(k, vs). k \<noteq> c) (cols f)" by simp_all
  moreover from this have "c \<notin> fst ` set (cols g)" by auto
  ultimately show ?thesis by simp
qed

lemma getitem_Inr: "getitem f c = Inr vs \<Longrightarrow> map_of (cols f) c = Some vs"
  by (simp add: getitem_def split: option.splits)

lemma retrain_model_full_frame:
  assumes "retrain_model caps self ps = Inr m"
  shows "fitted_on_full_frame caps self ps m"
proof -
  from assms obtain model0 model1 features target where
    a: "clone caps (estimator self) = Inr model0" "set_params caps model0 ps = Inr model1"
       "drop_columns (df self) [outcome_column self] = Inr features"
       "getitem (df self) (outcome_column self) = Inr target"
       "estimator_fit caps model1 features target = Inr m"
    unfolding retrain_model_def bind_result_Inr_iff by blast
  from drop_columns_single[OF a(3)] getitem_Inr[OF a(4)] a(1,2,5) show ?thesis by blast
qed

lemma fit_keeps_fields:
  assumes "fit caps self X y = (self', out)"
  shows "df self' = df self \<and> estimator self' = estimator self
       \<and> outcome_column self' = outcome_column self"
proof -
  from fit_appends[OF assms] obtain recs where
    "self' = self\<lparr>results := results self @ recs\<rparr>" by blast
  then show ?thesis by simp
qed

text \<open>
  Claim C7. Whenever one of the three policies returns a model, the model is the result of
  fitting a clone of the base estimator, configured with the selected configuration, on the
  frame stored in the object: all its rows, the outcome column removed from the features
  and passed as the target. The training split given to \<open>fit\<close> is not stored, and \<open>fit\<close>
  leaves the stored frame, the base estimator and the outcome column as they were.
\<close>

theorem selection_retrains_on_full_dataset:
  "(select_highest_accuracy_model caps self = Inr m \<longrightarrow>
      (\<exists>ps. highest_accuracy_best_params self = Inr ps \<and> fitted_on_full_frame caps self ps m))
   \<and> (select_least_biased_model caps self = Inr m \<longrightarrow>
      (\<exists>ps. least_biased_best_params self = Inr ps \<and> fitted_on_full_frame caps self ps m))
   \<and> (select_balanced_model caps self threshold = Inr m \<longrightarrow>
      (\<exists>ps. balanced_best_params self threshold = Inr ps
            \<and> fitted_on_full_frame caps self ps m))
   \<and> (fit caps self X_train y_train = (self', out) \<longrightarrow>
        df self' = df self \<and> estimator self' = estimator self
        \<and> outcome_column self' = outcome_column self)"
proof (intro conjI impI)
  assume "select_highest_accuracy_model caps self = Inr m"
  then obtain ps where b: "highest_accuracy_best_params self = Inr ps"
    and r: "retrain_model caps self ps = Inr m"
    unfolding select_highest_accuracy_model_def bind_result_Inr_iff by blast
  show "\<exists>ps. highest_accuracy_best_params self = Inr ps
      \<and> fitted_on_full_frame caps self ps m"
    by (rule exI[of _ ps], rule conjI[OF b retrain_model_full_frame[OF r]])
next
  assume "select_least_biased_model caps self = Inr m"
  then obtain ps where b: "least_biased_best_params self = Inr ps"
    and r: "retrain_model caps self ps = Inr m"
    unfolding select_least_biased_model_def bind_result_Inr_iff by blast
  show "\<exists>ps. least_biased_best_params self = Inr ps
      \<and> fitted_on_full_frame caps self ps m"
    by (rule exI[of _ ps], rule conjI[OF b retrain_model_full_frame[OF r]])
next
  assume "select_balanced_model caps self threshold = Inr m"
  then obtain ps where b: "balanced_best_params self threshold = Inr ps"
    and r: "retrain_model caps self ps = Inr m"
    unfolding select_balanced_model_def bind_result_Inr_iff by blast
  show "\<exists>ps. balanced_best_params self threshold = Inr ps
      \<and> fitted_on_full_frame caps self ps m"
    by (rule exI[of _ ps], rule conjI[OF b retrain_model_full_frame[OF r]])
next
  assume "fit caps self X_train y_train = (self', out)"
  then show "df self' = df self" "estimator self' = estimator self"
    "outcome_column self' = outcome_column self"
    using fit_keeps_fields by blast+
qed

lemma toy_selections:
  "select_highest_accuracy_model toy_caps (toy_scored [toy_record 1 (1 / 2) (1 / 10)])
     = Inr ([(''C'', 1)], Some 3)"
  "select_least_biased_model toy_caps (toy_scored [toy_record 1 (1 / 2) (1 / 10)])
     = Inr ([(''C'', 1)], Some 3)"
  "select_balanced_model toy_caps (toy_scored [toy_record 1 (1 / 2) (1 / 10)]) 1
     = Inr ([(''C'', 1)], Some 3)"
  by code_simp+

theorem selection_retrains_on_full_dataset_witness:
  "select_highest_accuracy_model toy_caps (toy_scored [toy_record 1 (1 / 2) (1 / 10)])
     = Inr ([(''C'', 1)], Some 3)
   \<and> select_least_biased_model toy_caps (toy_scored [toy_record 1 (1 / 2) (1 / 10)])
     = Inr ([(''C'', 1)], Some 3)
   \<and> select_balanced_model toy_caps (toy_scored [toy_record 1 (1 / 2) (1 / 10)]) 1
     = Inr ([(''C'', 1)], Some 3)
   \<and> fit toy_caps (toy_scored [toy_record 1 (1 / 2) (1 / 10)]) toy_X toy_y
     = (fst (fit toy_caps (toy_scored [toy_record 1 (1 / 2) (1 / 10)]) toy_X toy_y),
        snd (fit toy_caps (toy_scored [toy_record 1 (1 / 2) (1 / 10)]) toy_X toy_y))
   \<and> nrows toy_X = 2
   \<and> nrows (df (toy_scored [toy_record 1 (1 / 2) (1 / 10)])) = 3
   \<and> (\<exists>ps. highest_accuracy_best_params (toy_scored [toy_record 1 (1 / 2) (1 / 10)]) = Inr ps
        \<and> fitted_on_full_frame toy_caps (toy_scored [toy_record 1 (1 / 2) (1 / 10)]) ps
            ([(''C'', 1)], Some 3))
   \<and> (\<exists>ps. least_biased_best_params (toy_scored [toy_record 1 (1 / 2) (1 / 10)]) = Inr ps
        \<and> fitted_on_full_frame toy_caps (toy_scored [toy_record 1 (1 / 2) (1 / 10)]) ps
            ([(''C'', 1)], Some 3))
   \<and> (\<exists>ps. balanced_best_params (toy_scored [toy_record 1 (1 / 2) (1 / 10)]) 1 = Inr ps
        \<and> fitted_on_full_frame toy_caps (toy_scored [toy_record 1 (1 / 2) (1 / 10)]) ps
            ([(''C'', 1)], Some 3))
   \<and> df (fst (fit toy_caps (toy_scored [toy_record 1 (1 / 2) (1 / 10)]) toy_X toy_y))
       = df (toy_scored [toy_record 1 (1 / 2) (1 / 10)])"
proof -
  let ?s = "toy_scored [toy_record 1 (1 / 2) (1 / 10)]"
  have sizes: "nrows toy_X = 2" "nrows (df ?s) = 3"
    by (simp_all add: toy_X_def toy_scored_def toy_search_def init_def toy_df_def)
  have run: "fit toy_caps ?s toy_X toy_y
     = (fst (fit toy_caps ?s toy_X toy_y), snd (fit toy_caps ?s toy_X toy_y))"
    by simp
  from selection_retrains_on_full_dataset[of toy_caps ?s "([(''C'', 1)], Some 3)" 1
      toy_X toy_y "fst (fit toy_caps ?s toy_X toy_y)" "snd (fit toy_caps ?s toy_X toy_y)"]
    toy_selections sizes run
  show ?thesis by simp
qed

subsection \<open>The unimplemented policy\<close>

text \<open>
  Claim C9, as the code has it. \<open>find_optimum_model\<close> returns \<open>None\<close> for every object and
  every margin; it raises nothing.
\<close>

theorem find_optimum_model_returns_None:
  "find_optimum_model self margin = Inr None"
  by (simp add: find_optimum_model_def)

text \<open>The call returns normally at a concrete object and margin: no exception is raised.\<close>

theorem find_optimum_model_counterexample:
  "find_optimum_model (toy_scored toy_results_a) (1 / 10 :: real) = Inr None
   \<and> \<not> isl (find_optimum_model (toy_scored toy_results_a) (1 / 10 :: real))"
  by (simp add: find_optimum_model_def)

end
